theory Spec2Isabelle
  imports Main
begin

section \<open>The nuImages table store and annotation renderer\<close>

text \<open>
  A shallow embedding of \<^verbatim>\<open>python-sdk/nuimages/nuimages.py\<close> (class \<^verbatim>\<open>NuImages\<close>).
  The object is a record that every method takes and returns (explicit state passing);
  every \<^verbatim>\<open>assert\<close> and every failing dictionary lookup of the source is an \<open>Inl\<close>
  branch of the model, and the state a raising call leaves behind is returned with it.
  The file system, the colour map and the imaging library are outside the source and
  are parameters of the model. Assertions are executed (the interpreter runs without
  \<^verbatim>\<open>-O\<close>). The listing methods (\<^verbatim>\<open>list_attributes\<close> and the like) print
  statistics and touch the object through \<^verbatim>\<open>load_table\<close>, \<^verbatim>\<open>get\<close> and the table
  attributes only; they are not modelled.
\<close>

subsection \<open>Records of the JSON tables\<close>

text \<open>
  A table is the list that \<^verbatim>\<open>json.load\<close> returns, one dictionary per record. The
  rows follow the schema of the ten tables, with the keys the source reads; every row has
  the key \<^verbatim>\<open>token\<close>. A key that a row does not have raises \<^verbatim>\<open>KeyError\<close>, as
  the dictionary lookup does.
\<close>

datatype rle = RLE "nat list" string
  \<comment> \<open>a run-length encoded mask: its \<^verbatim>\<open>size\<close> and \<^verbatim>\<open>counts\<close>\<close>

type_synonym bbox = "int \<times> int \<times> int \<times> int"

datatype row =
    Attribute string string string
      \<comment> \<open>token, name, description\<close>
  | CalibratedSensor string string
      \<comment> \<open>token, sensor_token\<close>
  | Category string string string
      \<comment> \<open>token, name, description\<close>
  | EgoPose string
      \<comment> \<open>token\<close>
  | Log string string string
      \<comment> \<open>token, logfile, location\<close>
  | ObjectAnn string string string bbox "rle option" "string list"
      \<comment> \<open>token, sample_data_token, category_token, bbox, mask, attribute_tokens\<close>
  | Sample string string int
      \<comment> \<open>token, log_token, timestamp\<close>
  | SampleData string string string bool string string int
      \<comment> \<open>token, sample_token, calibrated_sensor_token, is_key_frame, fileformat,
          filename, timestamp\<close>
  | Sensor string string
      \<comment> \<open>token, channel\<close>
  | SurfaceAnn string string string "rle option"
      \<comment> \<open>token, sample_data_token, category_token, mask\<close>

datatype error =
    AssertionError string
  | KeyError string
  | AttributeError string
  | IndexError
  | OSError string
  | DecodeError

text \<open>\<^verbatim>\<open>member['token']\<close>: present in every row.\<close>

fun row_token :: "row \<Rightarrow> string" where
  "row_token (Attribute t _ _) = t"
| "row_token (CalibratedSensor t _) = t"
| "row_token (Category t _ _) = t"
| "row_token (EgoPose t) = t"
| "row_token (Log t _ _) = t"
| "row_token (ObjectAnn t _ _ _ _ _) = t"
| "row_token (Sample t _ _) = t"
| "row_token (SampleData t _ _ _ _ _ _) = t"
| "row_token (Sensor t _) = t"
| "row_token (SurfaceAnn t _ _ _) = t"

text \<open>The other keys: \<^verbatim>\<open>row[key]\<close> raises \<^verbatim>\<open>KeyError(key)\<close> on a row without it.\<close>

fun row_name :: "row \<Rightarrow> error + string" where
  "row_name (Attribute _ n _) = Inr n"
| "row_name (Category _ n _) = Inr n"
| "row_name _ = Inl (KeyError ''name'')"

fun row_sample_token :: "row \<Rightarrow> error + string" where
  "row_sample_token (SampleData _ st _ _ _ _ _) = Inr st"
| "row_sample_token _ = Inl (KeyError ''sample_token'')"

fun row_is_key_frame :: "row \<Rightarrow> error + bool" where
  "row_is_key_frame (SampleData _ _ _ kf _ _ _) = Inr kf"
| "row_is_key_frame _ = Inl (KeyError ''is_key_frame'')"

fun row_fileformat :: "row \<Rightarrow> error + string" where
  "row_fileformat (SampleData _ _ _ _ ff _ _) = Inr ff"
| "row_fileformat _ = Inl (KeyError ''fileformat'')"

fun row_filename :: "row \<Rightarrow> error + string" where
  "row_filename (SampleData _ _ _ _ _ fn _) = Inr fn"
| "row_filename _ = Inl (KeyError ''filename'')"

fun row_sample_data_token :: "row \<Rightarrow> error + string" where
  "row_sample_data_token (ObjectAnn _ sd _ _ _ _) = Inr sd"
| "row_sample_data_token (SurfaceAnn _ sd _ _) = Inr sd"
| "row_sample_data_token _ = Inl (KeyError ''sample_data_token'')"

fun row_category_token :: "row \<Rightarrow> error + string" where
  "row_category_token (ObjectAnn _ _ c _ _ _) = Inr c"
| "row_category_token (SurfaceAnn _ _ c _) = Inr c"
| "row_category_token _ = Inl (KeyError ''category_token'')"

fun row_mask :: "row \<Rightarrow> error + rle option" where
  "row_mask (ObjectAnn _ _ _ _ m _) = Inr m"
| "row_mask (SurfaceAnn _ _ _ m) = Inr m"
| "row_mask _ = Inl (KeyError ''mask'')"

fun row_bbox :: "row \<Rightarrow> error + bbox" where
  "row_bbox (ObjectAnn _ _ _ b _ _) = Inr b"
| "row_bbox _ = Inl (KeyError ''bbox'')"

fun row_attribute_tokens :: "row \<Rightarrow> error + string list" where
  "row_attribute_tokens (ObjectAnn _ _ _ _ _ ats) = Inr ats"
| "row_attribute_tokens _ = Inl (KeyError ''attribute_tokens'')"

subsection \<open>The file system and the object\<close>

text \<open>
  The file system is read only: the directories that exist and the parsed content of the
  JSON files. \<^verbatim>\<open>osp.exists\<close> holds of both; \<^verbatim>\<open>open\<close> succeeds on files only.
\<close>

record filesystem =
  dirs :: "string set"
  files :: "string \<rightharpoonup> row list"

definition osp_exists :: "filesystem \<Rightarrow> string \<Rightarrow> bool" where
  "osp_exists fs p \<longleftrightarrow> p \<in> dirs fs \<or> files fs p \<noteq> None"

text \<open>\<^verbatim>\<open>os.path.join\<close> of two components (POSIX).\<close>

definition osp_join :: "string \<Rightarrow> string \<Rightarrow> string" where
  "osp_join a b =
     (if b \<noteq> [] \<and> hd b = CHR ''/'' then b
      else if a = [] \<or> last a = CHR ''/'' then a @ b
      else a @ ''/'' @ b)"

type_synonym color = "nat \<times> nat \<times> nat"

text \<open>
  What the object does to the outside world, in order: a table file read by
  \<^verbatim>\<open>json.load\<close>, an image opened, the final plot. The field \<open>trace\<close> of the object
  is the only part of the record that is not an attribute of the Python object; it plays
  the role of a counting stub around the file system.
\<close>

datatype event = ReadTable string | OpenImage string | Plot string

record nuimages =
  version :: string
  dataroot :: string
  lazy :: bool
  verbose :: bool
  tables :: "string \<rightharpoonup> row list"
    \<comment> \<open>the table attributes present in \<^verbatim>\<open>self.__dict__\<close>\<close>
  token2ind :: "string \<rightharpoonup> (string \<rightharpoonup> nat) option"
    \<comment> \<open>\<^verbatim>\<open>self._token2ind\<close>: \<open>Some None\<close> is the Python value \<^verbatim>\<open>None\<close>\<close>
  color_map :: "string \<rightharpoonup> color"
  sample_to_key_frame_map :: "(string \<rightharpoonup> (string \<rightharpoonup> string)) option"
  trace :: "event list"

definition table_names :: "string list" where
  "table_names =
     [''attribute'', ''calibrated_sensor'', ''category'', ''ego_pose'', ''log'',
      ''object_ann'', ''sample'', ''sample_data'', ''sensor'', ''surface_ann'']"

text \<open>The attributes that \<^verbatim>\<open>__init__\<close> always sets; they are in \<^verbatim>\<open>self.__dict__\<close>.\<close>

definition instance_attrs :: "string list" where
  "instance_attrs =
     [''version'', ''dataroot'', ''lazy'', ''verbose'', ''table_names'', ''_token2ind'',
      ''color_map'', ''sample_to_key_frame_map'']"

definition table_root :: "nuimages \<Rightarrow> string" where
  "table_root self = osp_join (dataroot self) (version self)"

definition table_path :: "nuimages \<Rightarrow> string \<Rightarrow> string" where
  "table_path self table_name = osp_join (table_root self) (table_name @ ''.json'')"

subsection \<open>Loading tables\<close>

text \<open>\<^verbatim>\<open>__load_table__\<close>. The timing and the verbose message are not modelled.\<close>

definition dunder_load_table ::
  "filesystem \<Rightarrow> nuimages \<Rightarrow> string \<Rightarrow> (error + row list) \<times> nuimages" where
  "dunder_load_table fs self table_name =
     (if \<not> osp_exists fs (table_path self table_name)
      then (Inl (AssertionError (''Error: Table '' @ table_name @ '' does not exist!'')), self)
      else (case files fs (table_path self table_name) of
              None \<Rightarrow> (Inl (OSError (table_path self table_name)), self)
            | Some table \<Rightarrow> (Inr table, self\<lparr>trace := trace self @ [ReadTable table_name]\<rparr>)))"

text \<open>\<^verbatim>\<open>load_table\<close>: nothing to do when the name is a key of \<^verbatim>\<open>self.__dict__\<close>.\<close>

definition in_dict :: "nuimages \<Rightarrow> string \<Rightarrow> bool" where
  "in_dict self attr_name \<longleftrightarrow> attr_name \<in> set instance_attrs \<or> tables self attr_name \<noteq> None"

definition load_table :: "filesystem \<Rightarrow> nuimages \<Rightarrow> string \<Rightarrow> (error + unit) \<times> nuimages" where
  "load_table fs self table_name =
     (if in_dict self table_name then (Inr (), self)
      else (case dunder_load_table fs self table_name of
              (Inl e, self') \<Rightarrow> (Inl e, self')
            | (Inr table, self') \<Rightarrow>
                (Inr (), self'\<lparr>tables := (tables self')(table_name \<mapsto> table)\<rparr>)))"

text \<open>
  \<^verbatim>\<open>__getattr__\<close>, which Python calls when the attribute is not found, and
  \<^verbatim>\<open>getattr(self, table_name)\<close> for a table attribute: the attribute when it is
  set, \<^verbatim>\<open>__getattr__\<close> otherwise.
\<close>

definition dunder_getattr ::
  "filesystem \<Rightarrow> nuimages \<Rightarrow> string \<Rightarrow> (error + row list) \<times> nuimages" where
  "dunder_getattr fs self attr_name =
     (if attr_name \<in> set table_names
      then (case load_table fs self attr_name of
              (Inl e, self') \<Rightarrow> (Inl e, self')
            | (Inr _, self') \<Rightarrow>
                (case tables self' attr_name of
                   Some table \<Rightarrow> (Inr table, self')
                 | None \<Rightarrow> (Inl (AttributeError attr_name), self')))
      else (Inl (AttributeError attr_name), self))"

definition getattr_table ::
  "filesystem \<Rightarrow> nuimages \<Rightarrow> string \<Rightarrow> (error + row list) \<times> nuimages" where
  "getattr_table fs self attr_name =
     (case tables self attr_name of
        Some table \<Rightarrow> (Inr table, self)
      | None \<Rightarrow> dunder_getattr fs self attr_name)"

subsection \<open>Token lookup\<close>

text \<open>
  The loop of \<^verbatim>\<open>getind\<close> over \<^verbatim>\<open>enumerate(table)\<close>, from the empty dictionary:
  a later record overwrites the position of an earlier one with the same token.
\<close>

fun build_token2ind :: "(string \<rightharpoonup> nat) \<Rightarrow> (nat \<times> row) list \<Rightarrow> (string \<rightharpoonup> nat)" where
  "build_token2ind d [] = d"
| "build_token2ind d ((ind, member) # rest) = build_token2ind (d(row_token member \<mapsto> ind)) rest"

text \<open>
  \<^verbatim>\<open>getind\<close>. The source stores the empty dictionary before it reads the table
  attribute, so a table that fails to load leaves an empty index behind.
\<close>

definition getind :: "filesystem \<Rightarrow> nuimages \<Rightarrow> string \<Rightarrow> string \<Rightarrow> (error + nat) \<times> nuimages" where
  "getind fs self table_name token =
     (case token2ind self table_name of
        None \<Rightarrow> (Inl (KeyError table_name), self)
      | Some (Some d) \<Rightarrow>
          (case d token of
             None \<Rightarrow> (Inl (KeyError token), self)
           | Some ind \<Rightarrow> (Inr ind, self))
      | Some None \<Rightarrow>
          (let self1 = self\<lparr>token2ind := (token2ind self)(table_name \<mapsto> Some Map.empty)\<rparr> in
           case getattr_table fs self1 table_name of
             (Inl e, self2) \<Rightarrow> (Inl e, self2)
           | (Inr table, self2) \<Rightarrow>
               (let d = build_token2ind Map.empty (enumerate 0 table);
                    self3 = self2\<lparr>token2ind := (token2ind self2)(table_name \<mapsto> Some d)\<rparr>
                in case d token of
                     None \<Rightarrow> (Inl (KeyError token), self3)
                   | Some ind \<Rightarrow> (Inr ind, self3))))"

text \<open>
  \<^verbatim>\<open>get\<close>. Python evaluates \<^verbatim>\<open>getattr(self, table_name)\<close> before the subscript
  \<^verbatim>\<open>self.getind(table_name, token)\<close>.
\<close>

definition get :: "filesystem \<Rightarrow> nuimages \<Rightarrow> string \<Rightarrow> string \<Rightarrow> (error + row) \<times> nuimages" where
  "get fs self table_name token =
     (if table_name \<notin> set table_names
      then (Inl (AssertionError (''Table '' @ table_name @ '' not found'')), self)
      else (case getattr_table fs self table_name of
              (Inl e, self1) \<Rightarrow> (Inl e, self1)
            | (Inr table, self1) \<Rightarrow>
                (case getind fs self1 table_name token of
                   (Inl e, self2) \<Rightarrow> (Inl e, self2)
                 | (Inr ind, self2) \<Rightarrow>
                     (if ind < length table then (Inr (table ! ind), self2)
                      else (Inl IndexError, self2)))))"

subsection \<open>Construction\<close>

text \<open>The ten assignments \<^verbatim>\<open>self.<table> = self.__load_table__('<table>')\<close>, in order.\<close>

fun load_tables :: "filesystem \<Rightarrow> nuimages \<Rightarrow> string list \<Rightarrow> (error + unit) \<times> nuimages" where
  "load_tables fs self [] = (Inr (), self)"
| "load_tables fs self (table_name # rest) =
     (case dunder_load_table fs self table_name of
        (Inl e, self') \<Rightarrow> (Inl e, self')
      | (Inr table, self') \<Rightarrow>
          load_tables fs (self'\<lparr>tables := (tables self')(table_name \<mapsto> table)\<rparr>) rest)"

text \<open>
  \<^verbatim>\<open>__init__\<close>. The colour map is what \<^verbatim>\<open>get_colormap()\<close> returns. A failing
  construction leaves no object.
\<close>

definition init ::
  "filesystem \<Rightarrow> (string \<rightharpoonup> color) \<Rightarrow> string \<Rightarrow> string \<Rightarrow> bool \<Rightarrow> bool \<Rightarrow> error + nuimages" where
  "init fs colormap version' dataroot' lazy' verbose' =
     (let self = \<lparr>version = version', dataroot = dataroot', lazy = lazy', verbose = verbose',
                  tables = Map.empty, token2ind = Map.empty, color_map = Map.empty,
                  sample_to_key_frame_map = None, trace = []\<rparr>
      in if \<not> osp_exists fs (table_root self)
         then Inl (AssertionError (''Database version not found: '' @ table_root self))
         else (let self1 = self\<lparr>token2ind :=
                              (\<lambda>table. if table \<in> set table_names then Some None else None)\<rparr>
               in case (if \<not> lazy' then load_tables fs self1 table_names else (Inr (), self1)) of
                    (Inl e, _) \<Rightarrow> Inl e
                  | (Inr _, self2) \<Rightarrow>
                      Inr (self2\<lparr>color_map := colormap, sample_to_key_frame_map := None\<rparr>)))"

subsection \<open>The key frame of a sample\<close>

text \<open>
  The loop of \<^verbatim>\<open>sample_to_key_frame\<close> over the sample_data table. The dictionary
  it fills is created with the keys \<^verbatim>\<open>'image'\<close> and \<^verbatim>\<open>'lidar'\<close>; the loop
  subscripts it with \<^verbatim>\<open>'camera'\<close> or \<^verbatim>\<open>'lidar'\<close>.
\<close>

fun build_mapping ::
  "(string \<rightharpoonup> (string \<rightharpoonup> string)) \<Rightarrow> row list \<Rightarrow> error + (string \<rightharpoonup> (string \<rightharpoonup> string))" where
  "build_mapping mapping [] = Inr mapping"
| "build_mapping mapping (sample_data # rest) =
     (case row_is_key_frame sample_data of
        Inl e \<Rightarrow> Inl e
      | Inr is_key_frame \<Rightarrow>
          (if is_key_frame then
             (case row_fileformat sample_data of
                Inl e \<Rightarrow> Inl e
              | Inr fileformat \<Rightarrow>
                  (let sd_modality = (if fileformat = ''jpg'' then ''camera'' else ''lidar'') in
                   case row_sample_token sample_data of
                     Inl e \<Rightarrow> Inl e
                   | Inr sd_sample_token \<Rightarrow>
                       (case mapping sd_modality of
                          None \<Rightarrow> Inl (KeyError sd_modality)
                        | Some d \<Rightarrow>
                            build_mapping
                              (mapping(sd_modality \<mapsto> d(sd_sample_token \<mapsto> row_token sample_data)))
                              rest)))
           else build_mapping mapping rest))"

definition initial_mapping :: "string \<rightharpoonup> (string \<rightharpoonup> string)" where
  "initial_mapping = [''image'' \<mapsto> Map.empty, ''lidar'' \<mapsto> Map.empty]"

definition sample_to_key_frame ::
  "filesystem \<Rightarrow> nuimages \<Rightarrow> string \<Rightarrow> string \<Rightarrow> (error + string) \<times> nuimages" where
  "sample_to_key_frame fs self sample_token modality =
     (case (case sample_to_key_frame_map self of
              Some mapping \<Rightarrow> (Inr mapping, self)
            | None \<Rightarrow>
                (case getattr_table fs self ''sample_data'' of
                   (Inl e, self1) \<Rightarrow> (Inl e, self1)
                 | (Inr table, self1) \<Rightarrow>
                     (case build_mapping initial_mapping table of
                        Inl e \<Rightarrow> (Inl e, self1)
                      | Inr mapping \<Rightarrow>
                          (Inr mapping, self1\<lparr>sample_to_key_frame_map := Some mapping\<rparr>)))) of
        (Inl e, self2) \<Rightarrow> (Inl e, self2)
      | (Inr mapping, self2) \<Rightarrow>
          (case mapping modality of
             None \<Rightarrow> (Inl (KeyError modality), self2)
           | Some d \<Rightarrow>
               (case d sample_token of
                  None \<Rightarrow> (Inl (KeyError sample_token), self2)
                | Some sample_data_token \<Rightarrow> (Inr sample_data_token, self2))))"

subsection \<open>Rendering\<close>

text \<open>
  The imaging library is a parameter: opening an image file, decoding a mask (both may
  fail), composing the label of an annotation, and the three drawing calls of
  \<^verbatim>\<open>PIL.ImageDraw\<close>, which change the image. The image type is left open.
\<close>

datatype draw_op =
    Bitmap "nat \<times> nat" "nat list list" "nat \<times> nat \<times> nat \<times> nat"
      \<comment> \<open>\<^verbatim>\<open>draw.bitmap(xy, bitmap, fill)\<close>\<close>
  | Rectangle bbox color
      \<comment> \<open>\<^verbatim>\<open>draw.rectangle(bbox, outline)\<close>\<close>
  | Text "int \<times> int" string
      \<comment> \<open>\<^verbatim>\<open>draw.text(xy, name, font)\<close>\<close>

record 'img imaging =
  image_open :: "string \<Rightarrow> 'img option"
  mask_decode :: "rle \<Rightarrow> bool list list option"
  annotation_name :: "row list \<Rightarrow> string \<Rightarrow> bool \<Rightarrow> string"
  draw :: "draw_op \<Rightarrow> 'img \<Rightarrow> 'img"

text \<open>\<^verbatim>\<open>mask * 128\<close> on a binary mask, and \<^verbatim>\<open>tuple(color + (128,))\<close>.\<close>

definition scale_mask :: "bool list list \<Rightarrow> nat list list" where
  "scale_mask m = map (map (\<lambda>b. if b then 128 else 0)) m"

definition fill_of :: "color \<Rightarrow> nat \<times> nat \<times> nat \<times> nat" where
  "fill_of color = (case color of (r, g, b) \<Rightarrow> (r, g, b, 128))"

text \<open>
  The comprehension \<^verbatim>\<open>[o for o in table if o['sample_data_token'] == sample_data_token]\<close>
  and the allow-list \<^verbatim>\<open>[o for o in anns if o['token'] in tokens]\<close>, applied when the
  list of tokens is not \<^verbatim>\<open>None\<close>.
\<close>

fun anns_of_sample_data :: "row list \<Rightarrow> string \<Rightarrow> error + row list" where
  "anns_of_sample_data [] sample_data_token = Inr []"
| "anns_of_sample_data (ann # rest) sample_data_token =
     (case row_sample_data_token ann of
        Inl e \<Rightarrow> Inl e
      | Inr t \<Rightarrow>
          (case anns_of_sample_data rest sample_data_token of
             Inl e \<Rightarrow> Inl e
           | Inr anns \<Rightarrow> Inr (if t = sample_data_token then ann # anns else anns)))"

definition allow_list :: "string list option \<Rightarrow> row list \<Rightarrow> row list" where
  "allow_list tokens anns =
     (case tokens of
        None \<Rightarrow> anns
      | Some ts \<Rightarrow> filter (\<lambda>ann. row_token ann \<in> set ts) anns)"

text \<open>The body of the loop over the surface annotations, and the loop.\<close>

definition draw_surface_ann ::
  "'img imaging \<Rightarrow> filesystem \<Rightarrow> nuimages \<Rightarrow> 'img \<Rightarrow> row \<Rightarrow> (error + 'img) \<times> nuimages" where
  "draw_surface_ann lib fs self im ann =
     (case row_category_token ann of
        Inl e \<Rightarrow> (Inl e, self)
      | Inr category_token \<Rightarrow>
     (case get fs self ''category'' category_token of
        (Inl e, self1) \<Rightarrow> (Inl e, self1)
      | (Inr category, self1) \<Rightarrow>
     (case row_name category of
        Inl e \<Rightarrow> (Inl e, self1)
      | Inr category_name \<Rightarrow>
     (case color_map self1 category_name of
        None \<Rightarrow> (Inl (KeyError category_name), self1)
      | Some color \<Rightarrow>
     (case row_mask ann of
        Inl e \<Rightarrow> (Inl e, self1)
      | Inr None \<Rightarrow> (Inr im, self1)
      | Inr (Some m) \<Rightarrow>
     (case mask_decode lib m of
        None \<Rightarrow> (Inl DecodeError, self1)
      | Some mask_array \<Rightarrow>
          (Inr (draw lib (Bitmap (0, 0) (scale_mask mask_array) (fill_of color)) im), self1)))))))"

fun draw_surface_anns ::
  "'img imaging \<Rightarrow> filesystem \<Rightarrow> nuimages \<Rightarrow> 'img \<Rightarrow> row list \<Rightarrow> (error + 'img) \<times> nuimages" where
  "draw_surface_anns lib fs self im [] = (Inr im, self)"
| "draw_surface_anns lib fs self im (ann # rest) =
     (case draw_surface_ann lib fs self im ann of
        (Inl e, self') \<Rightarrow> (Inl e, self')
      | (Inr im', self') \<Rightarrow> draw_surface_anns lib fs self' im' rest)"

text \<open>The comprehension \<^verbatim>\<open>[self.get('attribute', at) for at in attr_tokens]\<close>.\<close>

fun get_attributes ::
  "filesystem \<Rightarrow> nuimages \<Rightarrow> string list \<Rightarrow> (error + row list) \<times> nuimages" where
  "get_attributes fs self [] = (Inr [], self)"
| "get_attributes fs self (at # rest) =
     (case get fs self ''attribute'' at of
        (Inl e, self1) \<Rightarrow> (Inl e, self1)
      | (Inr attribute, self1) \<Rightarrow>
          (case get_attributes fs self1 rest of
             (Inl e, self2) \<Rightarrow> (Inl e, self2)
           | (Inr attributes, self2) \<Rightarrow> (Inr (attribute # attributes), self2)))"

text \<open>The body of the loop over the object annotations, and the loop.\<close>

definition draw_object_ann ::
  "'img imaging \<Rightarrow> filesystem \<Rightarrow> nuimages \<Rightarrow> bool \<Rightarrow> 'img \<Rightarrow> row \<Rightarrow> (error + 'img) \<times> nuimages" where
  "draw_object_ann lib fs self with_attributes im ann =
     (case row_category_token ann of
        Inl e \<Rightarrow> (Inl e, self)
      | Inr category_token \<Rightarrow>
     (case get fs self ''category'' category_token of
        (Inl e, self1) \<Rightarrow> (Inl e, self1)
      | (Inr category, self1) \<Rightarrow>
     (case row_name category of
        Inl e \<Rightarrow> (Inl e, self1)
      | Inr category_name \<Rightarrow>
     (case color_map self1 category_name of
        None \<Rightarrow> (Inl (KeyError category_name), self1)
      | Some color \<Rightarrow>
     (case row_bbox ann of
        Inl e \<Rightarrow> (Inl e, self1)
      | Inr bbox \<Rightarrow>
     (case row_attribute_tokens ann of
        Inl e \<Rightarrow> (Inl e, self1)
      | Inr attr_tokens \<Rightarrow>
     (case get_attributes fs self1 attr_tokens of
        (Inl e, self2) \<Rightarrow> (Inl e, self2)
      | (Inr attributes, self2) \<Rightarrow>
     (let name = annotation_name lib attributes category_name with_attributes in
      case row_mask ann of
        Inl e \<Rightarrow> (Inl e, self2)
      | Inr None \<Rightarrow> (Inr im, self2)
      | Inr (Some m) \<Rightarrow>
     (case mask_decode lib m of
        None \<Rightarrow> (Inl DecodeError, self2)
      | Some mask_array \<Rightarrow>
          (Inr (draw lib (Bitmap (0, 0) (scale_mask mask_array) (fill_of color))
                 (draw lib (Text (fst bbox, fst (snd bbox)) name)
                   (draw lib (Rectangle bbox color) im))), self2))))))))))"

fun draw_object_anns ::
  "'img imaging \<Rightarrow> filesystem \<Rightarrow> nuimages \<Rightarrow> bool \<Rightarrow> 'img \<Rightarrow> row list \<Rightarrow> (error + 'img) \<times> nuimages" where
  "draw_object_anns lib fs self with_attributes im [] = (Inr im, self)"
| "draw_object_anns lib fs self with_attributes im (ann # rest) =
     (case draw_object_ann lib fs self with_attributes im ann of
        (Inl e, self') \<Rightarrow> (Inl e, self')
      | (Inr im', self') \<Rightarrow> draw_object_anns lib fs self' with_attributes im' rest)"

text \<open>
  \<^verbatim>\<open>render_image\<close>, in three parts: the validation of the inputs, the drawing of the
  annotations on the opened image, and the whole method. The figure size
  (\<^verbatim>\<open>render_scale\<close>) and the axes are display only; the plot is one event of the trace.
\<close>

definition validate_inputs ::
  "filesystem \<Rightarrow> nuimages \<Rightarrow> string \<Rightarrow> bool \<Rightarrow> bool \<Rightarrow> (error + row) \<times> nuimages" where
  "validate_inputs fs self sample_data_token with_annotations with_attributes =
     (case get fs self ''sample_data'' sample_data_token of
        (Inl e, self1) \<Rightarrow> (Inl e, self1)
      | (Inr sample_data, self1) \<Rightarrow>
     (case row_fileformat sample_data of
        Inl e \<Rightarrow> (Inl e, self1)
      | Inr fileformat \<Rightarrow>
          (if fileformat \<noteq> ''jpg''
           then (Inl (AssertionError ''Error: Cannot use render_image() on lidar pointclouds!''), self1)
           else
     (case row_is_key_frame sample_data of
        Inl e \<Rightarrow> (Inl e, self1)
      | Inr is_key_frame \<Rightarrow>
          (if \<not> is_key_frame \<and> with_annotations
           then (Inl (AssertionError ''Error: Cannot render annotations for non keyframes!''), self1)
           else if \<not> is_key_frame \<and> with_attributes
           then (Inl (AssertionError ''Error: Cannot render attributes for non keyframes!''), self1)
           else (Inr sample_data, self1))))))"

definition draw_annotations ::
  "'img imaging \<Rightarrow> filesystem \<Rightarrow> nuimages \<Rightarrow> string \<Rightarrow> bool \<Rightarrow> string list option \<Rightarrow>
   string list option \<Rightarrow> 'img \<Rightarrow> (error + 'img) \<times> nuimages" where
  "draw_annotations lib fs self sample_data_token with_attributes object_tokens surface_tokens im =
     (case getattr_table fs self ''surface_ann'' of
        (Inl e, self1) \<Rightarrow> (Inl e, self1)
      | (Inr surface_ann, self1) \<Rightarrow>
     (case anns_of_sample_data surface_ann sample_data_token of
        Inl e \<Rightarrow> (Inl e, self1)
      | Inr surface_anns \<Rightarrow>
     (case draw_surface_anns lib fs self1 im (allow_list surface_tokens surface_anns) of
        (Inl e, self2) \<Rightarrow> (Inl e, self2)
      | (Inr im1, self2) \<Rightarrow>
     (case getattr_table fs self2 ''object_ann'' of
        (Inl e, self3) \<Rightarrow> (Inl e, self3)
      | (Inr object_ann, self3) \<Rightarrow>
     (case anns_of_sample_data object_ann sample_data_token of
        Inl e \<Rightarrow> (Inl e, self3)
      | Inr object_anns \<Rightarrow>
          draw_object_anns lib fs self3 with_attributes im1
            (allow_list object_tokens object_anns))))))"

definition render_image ::
  "'img imaging \<Rightarrow> filesystem \<Rightarrow> nuimages \<Rightarrow> string \<Rightarrow> bool \<Rightarrow> bool \<Rightarrow> string list option \<Rightarrow>
   string list option \<Rightarrow> (error + 'img) \<times> nuimages" where
  "render_image lib fs self sample_data_token with_annotations with_attributes object_tokens
     surface_tokens =
     (case validate_inputs fs self sample_data_token with_annotations with_attributes of
        (Inl e, self1) \<Rightarrow> (Inl e, self1)
      | (Inr sample_data, self1) \<Rightarrow>
     (case row_filename sample_data of
        Inl e \<Rightarrow> (Inl e, self1)
      | Inr filename \<Rightarrow>
     (let im_path = osp_join (dataroot self1) filename in
      case image_open lib im_path of
        None \<Rightarrow> (Inl (OSError im_path), self1)
      | Some im \<Rightarrow>
     (let self2 = self1\<lparr>trace := trace self1 @ [OpenImage im_path]\<rparr> in
      if \<not> with_annotations then (Inr im, self2)
      else
     (case draw_annotations lib fs self2 sample_data_token with_attributes object_tokens
             surface_tokens im of
        (Inl e, self3) \<Rightarrow> (Inl e, self3)
      | (Inr im', self3) \<Rightarrow>
          (Inr im', self3\<lparr>trace := trace self3 @ [Plot sample_data_token]\<rparr>))))))"

subsection \<open>Reference functions and the invariant of the object\<close>

text \<open>
  The functions of this subsection are not in the source. They say, without the caches,
  what the lookups compute, and which states an object goes through; the theorems
  relate the methods above to them.

  \<open>get_row\<close> is the record a table gives for a token: the last one that carries it.
  \<open>table_file\<close> is what reading the file of a table gives for the object's data root
  and version, and \<open>lookup\<close> combines them the way \<^verbatim>\<open>get\<close> does.
\<close>

definition get_row :: "row list \<Rightarrow> string \<Rightarrow> error + row" where
  "get_row table token =
     (case find (\<lambda>r. row_token r = token) (rev table) of
        None \<Rightarrow> Inl (KeyError token)
      | Some r \<Rightarrow> Inr r)"

definition table_file :: "filesystem \<Rightarrow> nuimages \<Rightarrow> string \<Rightarrow> error + row list" where
  "table_file fs self table_name = fst (dunder_load_table fs self table_name)"

definition lookup :: "filesystem \<Rightarrow> nuimages \<Rightarrow> string \<Rightarrow> string \<Rightarrow> error + row" where
  "lookup fs self table_name token =
     (if table_name \<notin> set table_names
      then Inl (AssertionError (''Table '' @ table_name @ '' not found''))
      else (case table_file fs self table_name of
              Inl e \<Rightarrow> Inl e
            | Inr table \<Rightarrow> get_row table token))"

text \<open>
  The drawing calls that one annotation contributes, as a list in the order of the calls,
  when every lookup of the loop body succeeds: \<open>surface_ops\<close> and \<open>object_ops\<close>
  follow the two loop bodies of \<^verbatim>\<open>render_image\<close> line by line, with \<open>lookup\<close> in
  the place of \<^verbatim>\<open>self.get\<close>. \<open>collect_ops\<close> runs a loop body over the annotations
  and stops at the first error. \<open>surface_layer\<close> and \<open>object_layer\<close> are the calls
  of the whole loops.
\<close>

definition surface_ops ::
  "'img imaging \<Rightarrow> filesystem \<Rightarrow> nuimages \<Rightarrow> row \<Rightarrow> error + draw_op list" where
  "surface_ops lib fs self ann =
     (case row_category_token ann of
        Inl e \<Rightarrow> Inl e
      | Inr category_token \<Rightarrow>
     (case lookup fs self ''category'' category_token of
        Inl e \<Rightarrow> Inl e
      | Inr category \<Rightarrow>
     (case row_name category of
        Inl e \<Rightarrow> Inl e
      | Inr category_name \<Rightarrow>
     (case color_map self category_name of
        None \<Rightarrow> Inl (KeyError category_name)
      | Some color \<Rightarrow>
     (case row_mask ann of
        Inl e \<Rightarrow> Inl e
      | Inr None \<Rightarrow> Inr []
      | Inr (Some m) \<Rightarrow>
     (case mask_decode lib m of
        None \<Rightarrow> Inl DecodeError
      | Some mask_array \<Rightarrow> Inr [Bitmap (0, 0) (scale_mask mask_array) (fill_of color)]))))))"

fun lookup_attributes :: "filesystem \<Rightarrow> nuimages \<Rightarrow> string list \<Rightarrow> error + row list" where
  "lookup_attributes fs self [] = Inr []"
| "lookup_attributes fs self (at # rest) =
     (case lookup fs self ''attribute'' at of
        Inl e \<Rightarrow> Inl e
      | Inr attribute \<Rightarrow>
          (case lookup_attributes fs self rest of
             Inl e \<Rightarrow> Inl e
           | Inr attributes \<Rightarrow> Inr (attribute # attributes)))"

definition object_ops ::
  "'img imaging \<Rightarrow> filesystem \<Rightarrow> nuimages \<Rightarrow> bool \<Rightarrow> row \<Rightarrow> error + draw_op list" where
  "object_ops lib fs self with_attributes ann =
     (case row_category_token ann of
        Inl e \<Rightarrow> Inl e
      | Inr category_token \<Rightarrow>
     (case lookup fs self ''category'' category_token of
        Inl e \<Rightarrow> Inl e
      | Inr category \<Rightarrow>
     (case row_name category of
        Inl e \<Rightarrow> Inl e
      | Inr category_name \<Rightarrow>
     (case color_map self category_name of
        None \<Rightarrow> Inl (KeyError category_name)
      | Some color \<Rightarrow>
     (case row_bbox ann of
        Inl e \<Rightarrow> Inl e
      | Inr bbox \<Rightarrow>
     (case row_attribute_tokens ann of
        Inl e \<Rightarrow> Inl e
      | Inr attr_tokens \<Rightarrow>
     (case lookup_attributes fs self attr_tokens of
        Inl e \<Rightarrow> Inl e
      | Inr attributes \<Rightarrow>
     (case row_mask ann of
        Inl e \<Rightarrow> Inl e
      | Inr None \<Rightarrow> Inr []
      | Inr (Some m) \<Rightarrow>
     (case mask_decode lib m of
        None \<Rightarrow> Inl DecodeError
      | Some mask_array \<Rightarrow>
          Inr [Rectangle bbox color,
               Text (fst bbox, fst (snd bbox))
                 (annotation_name lib attributes category_name with_attributes),
               Bitmap (0, 0) (scale_mask mask_array) (fill_of color)])))))))))"

fun collect_ops :: "(row \<Rightarrow> error + draw_op list) \<Rightarrow> row list \<Rightarrow> error + draw_op list" where
  "collect_ops f [] = Inr []"
| "collect_ops f (ann # rest) =
     (case f ann of
        Inl e \<Rightarrow> Inl e
      | Inr ops \<Rightarrow>
          (case collect_ops f rest of
             Inl e \<Rightarrow> Inl e
           | Inr ops' \<Rightarrow> Inr (ops @ ops')))"

definition drawn :: "'img imaging \<Rightarrow> 'img \<Rightarrow> error + draw_op list \<Rightarrow> error + 'img" where
  "drawn lib im r = (case r of Inl e \<Rightarrow> Inl e | Inr ops \<Rightarrow> Inr (fold (draw lib) ops im))"

definition surface_layer ::
  "'img imaging \<Rightarrow> filesystem \<Rightarrow> nuimages \<Rightarrow> string \<Rightarrow> string list option \<Rightarrow> error + draw_op list" where
  "surface_layer lib fs self sample_data_token surface_tokens =
     (case table_file fs self ''surface_ann'' of
        Inl e \<Rightarrow> Inl e
      | Inr surface_ann \<Rightarrow>
          (case anns_of_sample_data surface_ann sample_data_token of
             Inl e \<Rightarrow> Inl e
           | Inr surface_anns \<Rightarrow>
               collect_ops (surface_ops lib fs self) (allow_list surface_tokens surface_anns)))"

definition object_layer ::
  "'img imaging \<Rightarrow> filesystem \<Rightarrow> nuimages \<Rightarrow> string \<Rightarrow> bool \<Rightarrow> string list option \<Rightarrow>
   error + draw_op list" where
  "object_layer lib fs self sample_data_token with_attributes object_tokens =
     (case table_file fs self ''object_ann'' of
        Inl e \<Rightarrow> Inl e
      | Inr object_ann \<Rightarrow>
          (case anns_of_sample_data object_ann sample_data_token of
             Inl e \<Rightarrow> Inl e
           | Inr object_anns \<Rightarrow>
               collect_ops (object_ops lib fs self with_attributes)
                 (allow_list object_tokens object_anns)))"

text \<open>
  The value of \<^verbatim>\<open>render_image\<close> without the caches: the checks, the image file, then
  the surface layer drawn on the image and the object layer drawn on the result.
\<close>

definition layers ::
  "'img imaging \<Rightarrow> 'img \<Rightarrow> error + draw_op list \<Rightarrow> error + draw_op list \<Rightarrow> error + 'img" where
  "layers lib im sl ol =
     (case sl of
        Inl e \<Rightarrow> Inl e
      | Inr surface_draws \<Rightarrow>
          (case ol of
             Inl e \<Rightarrow> Inl e
           | Inr object_draws \<Rightarrow>
               Inr (fold (draw lib) object_draws (fold (draw lib) surface_draws im))))"

definition checked_sample_data ::
  "filesystem \<Rightarrow> nuimages \<Rightarrow> string \<Rightarrow> bool \<Rightarrow> bool \<Rightarrow> error + row" where
  "checked_sample_data fs self sample_data_token with_annotations with_attributes =
     (case lookup fs self ''sample_data'' sample_data_token of
        Inl e \<Rightarrow> Inl e
      | Inr sample_data \<Rightarrow>
     (case row_fileformat sample_data of
        Inl e \<Rightarrow> Inl e
      | Inr fileformat \<Rightarrow>
          (if fileformat \<noteq> ''jpg''
           then Inl (AssertionError ''Error: Cannot use render_image() on lidar pointclouds!'')
           else
     (case row_is_key_frame sample_data of
        Inl e \<Rightarrow> Inl e
      | Inr is_key_frame \<Rightarrow>
          (if \<not> is_key_frame \<and> with_annotations
           then Inl (AssertionError ''Error: Cannot render annotations for non keyframes!'')
           else if \<not> is_key_frame \<and> with_attributes
           then Inl (AssertionError ''Error: Cannot render attributes for non keyframes!'')
           else Inr sample_data)))))"

definition rendered ::
  "'img imaging \<Rightarrow> filesystem \<Rightarrow> nuimages \<Rightarrow> string \<Rightarrow> bool \<Rightarrow> bool \<Rightarrow> string list option \<Rightarrow>
   string list option \<Rightarrow> error + 'img" where
  "rendered lib fs self sample_data_token with_annotations with_attributes object_tokens
     surface_tokens =
     (case checked_sample_data fs self sample_data_token with_annotations with_attributes of
        Inl e \<Rightarrow> Inl e
      | Inr sample_data \<Rightarrow>
     (case row_filename sample_data of
        Inl e \<Rightarrow> Inl e
      | Inr filename \<Rightarrow>
     (case image_open lib (osp_join (dataroot self) filename) of
        None \<Rightarrow> Inl (OSError (osp_join (dataroot self) filename))
      | Some im \<Rightarrow>
          (if \<not> with_annotations then Inr im
           else layers lib im
                  (surface_layer lib fs self sample_data_token surface_tokens)
                  (object_layer lib fs self sample_data_token with_attributes object_tokens)))))"

text \<open>The tables read so far, in order.\<close>

fun reads_of :: "event list \<Rightarrow> string list" where
  "reads_of [] = []"
| "reads_of (ReadTable table_name # evs) = table_name # reads_of evs"
| "reads_of (_ # evs) = reads_of evs"

text \<open>
  The invariant: a resident table is the content of its file; the index dictionary has
  the ten table names as keys; an index that was built is the index of the resident
  table (or is empty, for a table whose file cannot be read); every table was read at
  most once and is resident once read; the key frame mapping, once stored, is the one
  built from the resident sample_data table.
\<close>

definition store_inv :: "filesystem \<Rightarrow> nuimages \<Rightarrow> bool" where
  "store_inv fs self \<longleftrightarrow>
     (\<forall>n table. tables self n = Some table \<longrightarrow> files fs (table_path self n) = Some table) \<and>
     (\<forall>n. token2ind self n \<noteq> None \<longleftrightarrow> n \<in> set table_names) \<and>
     (\<forall>n d. token2ind self n = Some (Some d) \<longrightarrow>
        (case tables self n of
           Some table \<Rightarrow> d = build_token2ind Map.empty (enumerate 0 table)
         | None \<Rightarrow> d = Map.empty \<and> files fs (table_path self n) = None)) \<and>
     distinct (reads_of (trace self)) \<and>
     set (reads_of (trace self)) \<subseteq> dom (tables self) \<and>
     (\<forall>mapping. sample_to_key_frame_map self = Some mapping \<longrightarrow>
        (\<exists>table. tables self ''sample_data'' = Some table \<and>
                 build_mapping initial_mapping table = Inr mapping))"

text \<open>What no method changes: the configuration of the object.\<close>

definition same_config :: "nuimages \<Rightarrow> nuimages \<Rightarrow> bool" where
  "same_config self self' \<longleftrightarrow>
     version self' = version self \<and> dataroot self' = dataroot self \<and>
     lazy self' = lazy self \<and> verbose self' = verbose self \<and>
     color_map self' = color_map self"

text \<open>
  What a lookup may change, from a state that satisfies the invariant: tables become
  resident and indexes get built. The only events are table reads.
\<close>

definition lazy_step :: "filesystem \<Rightarrow> nuimages \<Rightarrow> nuimages \<Rightarrow> bool" where
  "lazy_step fs self self' \<longleftrightarrow>
     store_inv fs self' \<and> same_config self self' \<and>
     (\<exists>ns. trace self' = trace self @ map ReadTable ns) \<and>
     sample_to_key_frame_map self' = sample_to_key_frame_map self \<and>
     tables self \<subseteq>\<^sub>m tables self'"

text \<open>
  The object as \<^verbatim>\<open>__init__\<close> has it once the index dictionary is set up and before
  any table is read.
\<close>

definition blank :: "string \<Rightarrow> string \<Rightarrow> bool \<Rightarrow> bool \<Rightarrow> nuimages" where
  "blank v d lz vb =
     \<lparr>version = v, dataroot = d, lazy = lz, verbose = vb, tables = Map.empty,
      token2ind = (\<lambda>table. if table \<in> set table_names then Some None else None),
      color_map = Map.empty, sample_to_key_frame_map = None, trace = []\<rparr>"

text \<open>
  The states of an object over its lifetime: the result of a construction, then any
  sequence of calls of its methods, whether they return or raise. \<^verbatim>\<open>load_table\<close>
  and the table attributes are taken at the ten table names, which is how the class and
  its listing methods use them.
\<close>

inductive reachable :: "'img imaging \<Rightarrow> filesystem \<Rightarrow> nuimages \<Rightarrow> bool"
  for lib :: "'img imaging" and fs :: filesystem where
  constructed:
    "init fs colormap version' dataroot' lazy' verbose' = Inr self \<Longrightarrow> reachable lib fs self"
| after_load_table:
    "reachable lib fs self \<Longrightarrow> table_name \<in> set table_names \<Longrightarrow>
     reachable lib fs (snd (load_table fs self table_name))"
| after_getattr:
    "reachable lib fs self \<Longrightarrow> table_name \<in> set table_names \<Longrightarrow>
     reachable lib fs (snd (getattr_table fs self table_name))"
| after_getind:
    "reachable lib fs self \<Longrightarrow> reachable lib fs (snd (getind fs self table_name token))"
| after_get:
    "reachable lib fs self \<Longrightarrow> reachable lib fs (snd (get fs self table_name token))"
| after_sample_to_key_frame:
    "reachable lib fs self \<Longrightarrow>
     reachable lib fs (snd (sample_to_key_frame fs self sample_token modality))"
| after_render_image:
    "reachable lib fs self \<Longrightarrow>
     reachable lib fs
       (snd (render_image lib fs self sample_data_token with_annotations with_attributes
               object_tokens surface_tokens))"

subsection \<open>A small data set\<close>

text \<open>
  A data root \<^verbatim>\<open>/d\<close> with one version \<^verbatim>\<open>v\<close>, used to run the model on concrete
  inputs. The sample \<^verbatim>\<open>s1\<close> has a camera key frame \<^verbatim>\<open>sd1\<close>, a camera sweep
  \<^verbatim>\<open>sd2\<close> and a lidar key frame \<^verbatim>\<open>sd3\<close>. The key frame \<^verbatim>\<open>sd1\<close> carries four
  surface annotations (\<^verbatim>\<open>u2\<close> and \<^verbatim>\<open>u3\<close> without a mask, \<^verbatim>\<open>u2\<close> with a
  category token that is in no table; \<^verbatim>\<open>u1\<close> a road and \<^verbatim>\<open>u4\<close> a person, both with a
  mask) and four object annotations (\<^verbatim>\<open>o2\<close> and \<^verbatim>\<open>o3\<close> without a mask, \<^verbatim>\<open>o3\<close>
  of the category \<^verbatim>\<open>tree\<close>, which has no colour; \<^verbatim>\<open>o1\<close> a person and \<^verbatim>\<open>o4\<close> a
  road, both with a mask). The log table has two records with the token \<^verbatim>\<open>l1\<close>.
  Images are display lists here: drawing appends the call.
\<close>

definition demo_tables :: "(string \<times> row list) list" where
  "demo_tables =
     [(''attribute'', [Attribute ''a1'' ''standing'' ''pose'']),
      (''calibrated_sensor'', [CalibratedSensor ''cs1'' ''se1'']),
      (''category'',
         [Category ''c1'' ''person'' ''human'', Category ''c2'' ''road'' ''flat'',
          Category ''c3'' ''tree'' ''plant'']),
      (''ego_pose'', []),
      (''log'', [Log ''l1'' ''f1'' ''boston'', Log ''l1'' ''f2'' ''singapore'']),
      (''object_ann'',
         [ObjectAnn ''o1'' ''sd1'' ''c1'' (0, 0, 10, 10) (Some (RLE [10, 10] ''m1'')) [''a1''],
          ObjectAnn ''o2'' ''sd1'' ''c1'' (1, 1, 2, 2) None [],
          ObjectAnn ''o3'' ''sd1'' ''c3'' (2, 2, 3, 3) None [],
          ObjectAnn ''o4'' ''sd1'' ''c2'' (5, 5, 6, 6) (Some (RLE [10, 10] ''m5'')) []]),
      (''sample'', [Sample ''s1'' ''l1'' 0]),
      (''sample_data'',
         [SampleData ''sd1'' ''s1'' ''cs1'' True ''jpg'' ''a.jpg'' 0,
          SampleData ''sd2'' ''s1'' ''cs1'' False ''jpg'' ''b.jpg'' 1,
          SampleData ''sd3'' ''s1'' ''cs1'' True ''bin'' ''c.bin'' 0]),
      (''sensor'', [Sensor ''se1'' ''CAM_FRONT'']),
      (''surface_ann'',
         [SurfaceAnn ''u1'' ''sd1'' ''c2'' (Some (RLE [10, 10] ''m2'')),
          SurfaceAnn ''u2'' ''sd1'' ''c9'' None,
          SurfaceAnn ''u3'' ''sd1'' ''c2'' None,
          SurfaceAnn ''u4'' ''sd1'' ''c1'' (Some (RLE [10, 10] ''m4''))])]"

definition demo_fs :: filesystem where
  "demo_fs =
     \<lparr>dirs = {''/d'', ''/d/v''},
      files = map_of (map (\<lambda>(n, table). (''/d/v/'' @ n @ ''.json'', table)) demo_tables)\<rparr>"

definition demo_colors :: "string \<rightharpoonup> color" where
  "demo_colors = [''person'' \<mapsto> (255, 0, 0), ''road'' \<mapsto> (0, 255, 0)]"

definition demo_store :: nuimages where
  "demo_store = (blank ''v'' ''/d'' True False)\<lparr>color_map := demo_colors\<rparr>"

definition demo_lib :: "draw_op list imaging" where
  "demo_lib =
     \<lparr>image_open = (\<lambda>p. if p = ''/d/a.jpg'' \<or> p = ''/d/b.jpg'' then Some [] else None),
      mask_decode = (\<lambda>m. Some [[True, False]]),
      annotation_name = (\<lambda>attributes category_name with_attributes. category_name),
      draw = (\<lambda>op im. im @ [op])\<rparr>"

section \<open>Properties\<close>

subsection \<open>The index of a table\<close>

lemma build_token2ind_append:
  "build_token2ind d (xs @ ys) = build_token2ind (build_token2ind d xs) ys"
  by (induction xs arbitrary: d) auto

lemma build_token2ind_absent:
  "token \<notin> row_token ` set (map snd xs) \<Longrightarrow> build_token2ind d xs token = d token"
  by (induction xs arbitrary: d) auto

lemma build_token2ind_None:
  "build_token2ind Map.empty (enumerate k table) token = None \<longleftrightarrow> token \<notin> row_token ` set table"
proof -
  have "build_token2ind d (enumerate k table) token = None \<longleftrightarrow>
        d token = None \<and> token \<notin> row_token ` set table" for d
    by (induction table arbitrary: d k) auto
  then show ?thesis by simp
qed

lemma build_token2ind_last:
  assumes "i < length table" "row_token (table ! i) = token"
    and "\<forall>j. i < j \<and> j < length table \<longrightarrow> row_token (table ! j) \<noteq> token"
  shows "build_token2ind d (enumerate k table) token = Some (k + i)"
proof -
  have split: "table = take i table @ (table ! i) # drop (Suc i) table"
    using assms(1) by (simp add: id_take_nth_drop)
  have later: "token \<notin> row_token ` set (map snd (enumerate (k + Suc i) (drop (Suc i) table)))"
  proof
    assume "token \<in> row_token ` set (map snd (enumerate (k + Suc i) (drop (Suc i) table)))"
    then obtain r where r: "r \<in> set (drop (Suc i) table)" "row_token r = token"
      unfolding map_snd_enumerate by auto
    then obtain m where "m < length (drop (Suc i) table)" "drop (Suc i) table ! m = r"
      by (auto simp: in_set_conv_nth)
    then have "Suc i + m < length table" "table ! (Suc i + m) = r"
      by auto
    moreover have "i < Suc i + m" by simp
    ultimately show False using assms(3) r(2) by blast
  qed
  have "enumerate k table =
        enumerate k (take i table) @ (k + i, table ! i) # enumerate (k + Suc i) (drop (Suc i) table)"
    using assms(1) by (subst split) (simp add: enumerate_append_eq min_def)
  then show ?thesis
    using later assms(2) by (simp add: build_token2ind_append build_token2ind_absent)
qed

lemma build_token2ind_Some:
  assumes "build_token2ind Map.empty (enumerate 0 table) token = Some i"
  shows "i < length table \<and> row_token (table ! i) = token \<and>
         (\<forall>j. i < j \<and> j < length table \<longrightarrow> row_token (table ! j) \<noteq> token)"
proof -
  from assms have "token \<in> row_token ` set table"
    using build_token2ind_None [of 0 table token] by auto
  then have ex: "\<exists>m. m < length table \<and> row_token (table ! m) = token"
    by (auto simp: in_set_conv_nth)
  define m where "m = (GREATEST m. m < length table \<and> row_token (table ! m) = token)"
  have m: "m < length table \<and> row_token (table ! m) = token"
    unfolding m_def using ex by (rule GreatestI_ex_nat [where b = "length table"]) simp
  have mx: "\<forall>j. m < j \<and> j < length table \<longrightarrow> row_token (table ! j) \<noteq> token"
  proof (intro allI impI notI)
    fix j assume j: "m < j \<and> j < length table" and "row_token (table ! j) = token"
    then have "j \<le> m"
      unfolding m_def by (intro Greatest_le_nat [where b = "length table"]) auto
    with j show False by simp
  qed
  from build_token2ind_last [of m table token Map.empty 0] m mx assms
  have "i = m" by simp
  with m mx show ?thesis by simp
qed

subsection \<open>Table access and the invariant\<close>

lemma table_names_not_attrs: "n \<in> set table_names \<Longrightarrow> n \<notin> set instance_attrs"
  by (auto simp: table_names_def instance_attrs_def)

lemma distinct_table_names: "distinct table_names"
  by (simp add: table_names_def)

lemma reads_of_append: "reads_of (xs @ ys) = reads_of xs @ reads_of ys"
  by (induction xs rule: reads_of.induct) auto

lemma same_config_refl: "same_config s s"
  by (simp add: same_config_def)

lemma same_config_trans: "same_config s s' \<Longrightarrow> same_config s' s'' \<Longrightarrow> same_config s s''"
  by (simp add: same_config_def)

lemma same_config_table_path: "same_config s s' \<Longrightarrow> table_path s' = table_path s"
  by (auto simp: same_config_def table_path_def table_root_def fun_eq_iff)

lemma same_config_table_file: "same_config s s' \<Longrightarrow> table_file fs s' = table_file fs s"
  by (auto simp: table_file_def dunder_load_table_def fun_eq_iff same_config_table_path split: option.splits)

lemma same_config_lookup: "same_config s s' \<Longrightarrow> lookup fs s' = lookup fs s"
  by (auto simp: lookup_def fun_eq_iff same_config_table_file)

lemma table_file_Inr: "table_file fs s n = Inr table \<longleftrightarrow> files fs (table_path s n) = Some table"
  by (auto simp: table_file_def dunder_load_table_def osp_exists_def split: option.splits)

lemma table_file_Inl: "(\<exists>e. table_file fs s n = Inl e) \<longleftrightarrow> files fs (table_path s n) = None"
  by (auto simp: table_file_def dunder_load_table_def osp_exists_def split: option.splits)

text \<open>What an access to a table attribute does, without any assumption on the state.\<close>

lemma load_table_eq:
  "n \<notin> set instance_attrs \<Longrightarrow>
   load_table fs s n =
     (case tables s n of
        Some table \<Rightarrow> (Inr (), s)
      | None \<Rightarrow>
          (case files fs (table_path s n) of
             None \<Rightarrow> (map_sum id (\<lambda>_. ()) (table_file fs s n), s)
           | Some table \<Rightarrow>
               (Inr (), s\<lparr>trace := trace s @ [ReadTable n], tables := (tables s)(n \<mapsto> table)\<rparr>)))"
  by (auto simp: load_table_def in_dict_def table_file_def dunder_load_table_def osp_exists_def
      split: option.splits)

lemma getattr_table_eq:
  "n \<in> set table_names \<Longrightarrow>
   getattr_table fs s n =
     (case tables s n of
        Some table \<Rightarrow> (Inr table, s)
      | None \<Rightarrow>
          (case files fs (table_path s n) of
             None \<Rightarrow> (table_file fs s n, s)
           | Some table \<Rightarrow>
               (Inr table, s\<lparr>trace := trace s @ [ReadTable n], tables := (tables s)(n \<mapsto> table)\<rparr>)))"
  using table_file_Inl [of fs s n]
  by (auto simp: getattr_table_def dunder_getattr_def load_table_eq table_names_not_attrs
      split: option.splits sum.splits)

lemma store_inv_resident:
  "store_inv fs s \<Longrightarrow> tables s n = Some table \<Longrightarrow> files fs (table_path s n) = Some table"
  by (simp add: store_inv_def)

lemma store_inv_keys: "store_inv fs s \<Longrightarrow> token2ind s n \<noteq> None \<longleftrightarrow> n \<in> set table_names"
  by (simp add: store_inv_def)

lemma store_inv_index:
  "store_inv fs s \<Longrightarrow> token2ind s n = Some (Some d) \<Longrightarrow> tables s n = Some table \<Longrightarrow>
   d = build_token2ind Map.empty (enumerate 0 table)"
  unfolding store_inv_def by (elim conjE allE [of _ n] allE [of _ d]) simp

lemma store_inv_reads:
  "store_inv fs s \<Longrightarrow> distinct (reads_of (trace s)) \<and> set (reads_of (trace s)) \<subseteq> dom (tables s)"
  by (simp add: store_inv_def)

lemma store_inv_mapping:
  "store_inv fs s \<Longrightarrow> sample_to_key_frame_map s = Some mapping \<Longrightarrow>
   \<exists>table. tables s ''sample_data'' = Some table \<and> build_mapping initial_mapping table = Inr mapping"
  by (simp add: store_inv_def)

lemma store_inv_add_table:
  assumes "store_inv fs s" "tables s n = None" "files fs (table_path s n) = Some table"
  shows "store_inv fs (s\<lparr>trace := trace s @ [ReadTable n], tables := (tables s)(n \<mapsto> table)\<rparr>)"
proof -
  let ?s = "s\<lparr>trace := trace s @ [ReadTable n], tables := (tables s)(n \<mapsto> table)\<rparr>"
  have p: "table_path ?s = table_path s"
    by (simp add: table_path_def table_root_def fun_eq_iff)
  have 1: "\<forall>m t. tables ?s m = Some t \<longrightarrow> files fs (table_path ?s m) = Some t"
    using assms unfolding p by (auto simp: store_inv_def)
  have 2: "\<forall>m. token2ind ?s m \<noteq> None \<longleftrightarrow> m \<in> set table_names"
    using assms(1) by (simp add: store_inv_def)
  have 3: "\<forall>m d. token2ind ?s m = Some (Some d) \<longrightarrow>
        (case tables ?s m of
           Some t \<Rightarrow> d = build_token2ind Map.empty (enumerate 0 t)
         | None \<Rightarrow> d = Map.empty \<and> files fs (table_path ?s m) = None)"
  proof (intro allI impI)
    fix m d assume a: "token2ind ?s m = Some (Some d)"
    then have b: "case tables s m of
           Some t \<Rightarrow> d = build_token2ind Map.empty (enumerate 0 t)
         | None \<Rightarrow> d = Map.empty \<and> files fs (table_path s m) = None"
      using assms(1) by (simp add: store_inv_def)
    show "case tables ?s m of
           Some t \<Rightarrow> d = build_token2ind Map.empty (enumerate 0 t)
         | None \<Rightarrow> d = Map.empty \<and> files fs (table_path ?s m) = None"
    proof (cases "m = n")
      case True
      with b assms(2,3) show ?thesis by simp
    next
      case False
      with b show ?thesis unfolding p by simp
    qed
  qed
  have "n \<notin> set (reads_of (trace s))"
    using assms(1,2) by (auto simp: store_inv_def)
  then have 4: "distinct (reads_of (trace ?s))"
    using assms(1) by (simp add: store_inv_def reads_of_append)
  have 5: "set (reads_of (trace ?s)) \<subseteq> dom (tables ?s)"
    using assms(1) by (auto simp: store_inv_def reads_of_append)
  have 6: "\<forall>mapping. sample_to_key_frame_map ?s = Some mapping \<longrightarrow>
        (\<exists>t. tables ?s ''sample_data'' = Some t \<and> build_mapping initial_mapping t = Inr mapping)"
    using assms(1,2) by (auto simp: store_inv_def)
  show ?thesis
    unfolding store_inv_def using 1 2 3 4 5 6 by blast
qed

lemma store_inv_set_index:
  assumes "store_inv fs s" "n \<in> set table_names"
    and "case tables s n of
           Some t \<Rightarrow> d = build_token2ind Map.empty (enumerate 0 t)
         | None \<Rightarrow> d = Map.empty \<and> files fs (table_path s n) = None"
  shows "store_inv fs (s\<lparr>token2ind := (token2ind s)(n \<mapsto> Some d)\<rparr>)"
proof -
  let ?s = "s\<lparr>token2ind := (token2ind s)(n \<mapsto> Some d)\<rparr>"
  have p: "table_path ?s = table_path s"
    by (simp add: table_path_def table_root_def fun_eq_iff)
  have 1: "\<forall>m t. tables ?s m = Some t \<longrightarrow> files fs (table_path ?s m) = Some t"
    using assms(1) unfolding p by (auto simp: store_inv_def)
  have 2: "\<forall>m. token2ind ?s m \<noteq> None \<longleftrightarrow> m \<in> set table_names"
    using assms(1,2) by (simp add: store_inv_def)
  have 3: "\<forall>m d'. token2ind ?s m = Some (Some d') \<longrightarrow>
        (case tables ?s m of
           Some t \<Rightarrow> d' = build_token2ind Map.empty (enumerate 0 t)
         | None \<Rightarrow> d' = Map.empty \<and> files fs (table_path ?s m) = None)"
  proof (intro allI impI)
    fix m d' assume a: "token2ind ?s m = Some (Some d')"
    show "case tables ?s m of
           Some t \<Rightarrow> d' = build_token2ind Map.empty (enumerate 0 t)
         | None \<Rightarrow> d' = Map.empty \<and> files fs (table_path ?s m) = None"
    proof (cases "m = n")
      case True
      with a assms(3) show ?thesis unfolding p by (auto split: option.splits)
    next
      case False
      with a have "token2ind s m = Some (Some d')" by simp
      then show ?thesis using assms(1) unfolding p by (simp add: store_inv_def)
    qed
  qed
  have 4: "distinct (reads_of (trace ?s))" "set (reads_of (trace ?s)) \<subseteq> dom (tables ?s)"
    using assms(1) by (simp_all add: store_inv_def)
  have 6: "\<forall>mapping. sample_to_key_frame_map ?s = Some mapping \<longrightarrow>
        (\<exists>t. tables ?s ''sample_data'' = Some t \<and> build_mapping initial_mapping t = Inr mapping)"
    using assms(1) by (simp add: store_inv_def)
  show ?thesis
    unfolding store_inv_def using 1 2 3 4 6 by blast
qed

subsection \<open>Lookups compute the reference functions\<close>

lemma build_token2ind_snoc:
  "build_token2ind d (enumerate k (table @ [r])) =
   (build_token2ind d (enumerate k table))(row_token r \<mapsto> k + length table)"
  by (simp add: enumerate_append_eq build_token2ind_append)

lemma index_get_row:
  "(case build_token2ind Map.empty (enumerate 0 table) token of
      None \<Rightarrow> Inl (KeyError token)
    | Some ind \<Rightarrow> if ind < length table then Inr (table ! ind) else Inl IndexError) =
   get_row table token"
proof (induction table rule: rev_induct)
  case Nil
  then show ?case by (simp add: get_row_def)
next
  case (snoc r table)
  show ?case
  proof (cases "row_token r = token")
    case True
    then show ?thesis
      by (simp add: build_token2ind_snoc get_row_def)
  next
    case False
    have bound: "ind < length table"
      if "build_token2ind Map.empty (enumerate 0 table) token = Some ind" for ind
      using build_token2ind_Some [OF that] by simp
    from False snoc show ?thesis
      by (auto simp: build_token2ind_snoc get_row_def nth_append dest: bound split: option.splits)
  qed
qed

lemma getattr_table_inv:
  assumes "store_inv fs s" "n \<in> set table_names" "getattr_table fs s n = (r, s')"
  shows "store_inv fs s'" and "same_config s s'" and "r = table_file fs s n"
    and "token2ind s' = token2ind s"
    and "sample_to_key_frame_map s' = sample_to_key_frame_map s"
    and "\<And>table. r = Inr table \<Longrightarrow> tables s' n = Some table"
    and "\<exists>ns. trace s' = trace s @ map ReadTable ns"
    and "tables s \<subseteq>\<^sub>m tables s'"
proof -
  have res: "tables s n = Some table \<Longrightarrow> table_file fs s n = Inr table" for table
    using store_inv_resident [OF assms(1)] by (simp add: table_file_Inr)
  note eq = assms(3) [unfolded getattr_table_eq [OF assms(2)]]
  show "store_inv fs s'"
    using eq assms(1) store_inv_add_table [of fs s n]
    by (auto split: option.splits)
  show "same_config s s'"
    using eq by (auto simp: same_config_def split: option.splits)
  show "r = table_file fs s n"
  proof (cases "tables s n")
    case (Some table)
    with eq res show ?thesis by simp
  next
    case None
    show ?thesis
    proof (cases "files fs (table_path s n)")
      case None
      with eq \<open>tables s n = None\<close> show ?thesis by auto
    next
      case (Some table)
      then have "table_file fs s n = Inr table" by (simp add: table_file_Inr)
      with eq \<open>tables s n = None\<close> Some show ?thesis by auto
    qed
  qed
  show "token2ind s' = token2ind s"
    using eq by (auto split: option.splits)
  show "sample_to_key_frame_map s' = sample_to_key_frame_map s"
    using eq by (auto split: option.splits)
  show "tables s' n = Some table" if "r = Inr table" for table
    using eq that table_file_Inl [of fs s n] by (auto split: option.splits)
  show "\<exists>ns. trace s' = trace s @ map ReadTable ns"
  proof (cases "trace s' = trace s")
    case True
    then have "trace s' = trace s @ map ReadTable []" by simp
    then show ?thesis by blast
  next
    case False
    then have "trace s' = trace s @ map ReadTable [n]"
      using eq by (auto split: option.splits)
    then show ?thesis by blast
  qed
  show "tables s \<subseteq>\<^sub>m tables s'"
    using eq by (auto simp: map_le_def split: option.splits)
qed

lemma getind_resident:
  assumes "store_inv fs s" "n \<in> set table_names" "tables s n = Some table"
    and "getind fs s n token = (r, s')"
  shows "r = (case build_token2ind Map.empty (enumerate 0 table) token of
                None \<Rightarrow> Inl (KeyError token) | Some ind \<Rightarrow> Inr ind)"
    and "store_inv fs s'" and "same_config s s'" and "tables s' = tables s"
    and "trace s' = trace s" and "sample_to_key_frame_map s' = sample_to_key_frame_map s"
proof -
  have "token2ind s n \<noteq> None"
    using store_inv_keys [OF assms(1), of n] assms(2) by simp
  then obtain v where v: "token2ind s n = Some v" by blast
  let ?d = "build_token2ind Map.empty (enumerate 0 table)"
  let ?s = "s\<lparr>token2ind := (token2ind s)(n \<mapsto> Some ?d)\<rparr>"
  have inv': "store_inv fs ?s"
    using assms(1-3) by (intro store_inv_set_index) auto
  have built: "v = Some d \<Longrightarrow> d = ?d" for d
    using store_inv_index [OF assms(1) _ assms(3), of d] v by simp
  have "(r, s') = (case ?d token of None \<Rightarrow> Inl (KeyError token) | Some ind \<Rightarrow> Inr ind,
                   if v = None then ?s else s)"
    using assms(2-4) v built
    by (cases v) (auto simp: getind_def getattr_table_eq Let_def split: option.splits)
  then have r: "r = (case ?d token of None \<Rightarrow> Inl (KeyError token) | Some ind \<Rightarrow> Inr ind)"
    and s': "s' = (if v = None then ?s else s)" by simp_all
  show "r = (case ?d token of None \<Rightarrow> Inl (KeyError token) | Some ind \<Rightarrow> Inr ind)" by (rule r)
  show "store_inv fs s'" using s' inv' assms(1) by simp
  show "same_config s s'" using s' by (simp add: same_config_def)
  show "tables s' = tables s" using s' by simp
  show "trace s' = trace s" using s' by simp
  show "sample_to_key_frame_map s' = sample_to_key_frame_map s" using s' by simp
qed

lemma getind_inv:
  assumes "store_inv fs s"
  shows "store_inv fs (snd (getind fs s n token))"
proof (cases "token2ind s n")
  case None
  then show ?thesis using assms by (simp add: getind_def)
next
  case (Some v)
  then have n: "n \<in> set table_names"
    using store_inv_keys [OF assms, of n] by simp
  show ?thesis
  proof (cases v)
    case (Some d)
    with \<open>token2ind s n = Some v\<close> show ?thesis
      using assms by (simp add: getind_def split: option.splits)
  next
    case None
    note v = \<open>token2ind s n = Some v\<close> [unfolded None]
    show ?thesis
    proof (cases "tables s n")
      case (Some table)
      obtain r s' where g: "getind fs s n token = (r, s')" by (cases "getind fs s n token")
      from getind_resident(2) [OF assms n Some g] g show ?thesis by simp
    next
      case None
      show ?thesis
      proof (cases "files fs (table_path s n)")
        case None
        have "store_inv fs (s\<lparr>token2ind := (token2ind s)(n \<mapsto> Some Map.empty)\<rparr>)"
          using assms n \<open>tables s n = None\<close> None by (intro store_inv_set_index) auto
        moreover have "table_path (s\<lparr>token2ind := (token2ind s)(n \<mapsto> Some Map.empty)\<rparr>) = table_path s"
          by (simp add: table_path_def table_root_def fun_eq_iff)
        moreover obtain e where "table_file fs (s\<lparr>token2ind := (token2ind s)(n \<mapsto> Some Map.empty)\<rparr>) n = Inl e"
          using table_file_Inl [of fs "s\<lparr>token2ind := (token2ind s)(n \<mapsto> Some Map.empty)\<rparr>" n] None calculation(2)
          by auto
        ultimately show ?thesis
          using v \<open>tables s n = None\<close> None n
          by (simp add: getind_def getattr_table_eq Let_def)
      next
        case (Some table)
        let ?d = "build_token2ind Map.empty (enumerate 0 table)"
        let ?s1 = "s\<lparr>trace := trace s @ [ReadTable n], tables := (tables s)(n \<mapsto> table)\<rparr>"
        have "store_inv fs ?s1"
          using assms \<open>tables s n = None\<close> Some by (rule store_inv_add_table)
        then have "store_inv fs (?s1\<lparr>token2ind := (token2ind ?s1)(n \<mapsto> Some ?d)\<rparr>)"
          using n by (rule store_inv_set_index) simp
        moreover have "table_path (s\<lparr>token2ind := (token2ind s)(n \<mapsto> Some Map.empty)\<rparr>) = table_path s"
          by (simp add: table_path_def table_root_def fun_eq_iff)
        ultimately show ?thesis
          using v \<open>tables s n = None\<close> Some n
          by (simp add: getind_def getattr_table_eq Let_def split: option.splits)
      qed
    qed
  qed
qed

lemma get_correct:
  assumes "store_inv fs s" "get fs s n token = (r, s')"
  shows "r = lookup fs s n token" and "store_inv fs s'" and "same_config s s'"
    and "\<exists>ns. trace s' = trace s @ map ReadTable ns"
    and "sample_to_key_frame_map s' = sample_to_key_frame_map s"
    and "tables s \<subseteq>\<^sub>m tables s'"
proof -
  have all: "r = lookup fs s n token \<and> store_inv fs s' \<and> same_config s s' \<and>
    (\<exists>ns. trace s' = trace s @ map ReadTable ns) \<and>
    sample_to_key_frame_map s' = sample_to_key_frame_map s \<and> tables s \<subseteq>\<^sub>m tables s'"
  proof (cases "n \<in> set table_names")
    case False
    then have "r = lookup fs s n token" "s' = s"
      using assms(2) by (auto simp: get_def lookup_def)
    moreover have "\<exists>ns. trace s = trace s @ map ReadTable ns"
      by (rule exI [of _ "[]"]) simp
    ultimately show ?thesis
      using assms(1) by (simp add: same_config_refl)
  next
    case True
    obtain r1 s1 where a: "getattr_table fs s n = (r1, s1)" by (cases "getattr_table fs s n")
    note A = getattr_table_inv [OF assms(1) True a]
    have tf: "table_file fs s n = r1" using A(3) by simp
    show ?thesis
    proof (cases r1)
      case (Inl e)
      then have "r = Inl e" "s' = s1"
        using assms(2) True a by (auto simp: get_def)
      moreover have "lookup fs s n token = Inl e"
        using True tf Inl by (simp add: lookup_def)
      ultimately show ?thesis using A by simp
    next
      case (Inr table)
      then have res: "tables s1 n = Some table" using A(6) by simp
      obtain r2 s2 where g: "getind fs s1 n token = (r2, s2)" by (cases "getind fs s1 n token")
      note G = getind_resident [OF A(1) True res g]
      have "s' = s2"
        using assms(2) True a Inr g by (auto simp: get_def split: sum.splits if_splits)
      moreover have "r = (case r2 of Inl e \<Rightarrow> Inl e
                     | Inr ind \<Rightarrow> if ind < length table then Inr (table ! ind) else Inl IndexError)"
        using assms(2) True a Inr g by (auto simp: get_def split: sum.splits if_splits)
      then have "r = get_row table token"
        unfolding G(1) using index_get_row [where table = table and token = token] by (auto split: option.splits)
      moreover have "lookup fs s n token = get_row table token"
        using True tf Inr by (simp add: lookup_def)
      moreover have "same_config s s2"
        using A(2) G(3) by (rule same_config_trans)
      ultimately show ?thesis
        using G A by simp
    qed
  qed
  then show "r = lookup fs s n token" and "store_inv fs s'" and "same_config s s'"
    and "\<exists>ns. trace s' = trace s @ map ReadTable ns"
    and "sample_to_key_frame_map s' = sample_to_key_frame_map s"
    and "tables s \<subseteq>\<^sub>m tables s'" by blast+
qed

subsection \<open>The drawing loops\<close>

lemma lazy_step_refl: "store_inv fs s \<Longrightarrow> lazy_step fs s s"
  unfolding lazy_step_def
  by (auto simp: same_config_refl intro: exI [of _ "[]"])

lemma lazy_step_trans:
  assumes "lazy_step fs s s'" "lazy_step fs s' s''"
  shows "lazy_step fs s s''"
proof -
  obtain ns where ns: "trace s' = trace s @ map ReadTable ns"
    using assms(1) by (auto simp: lazy_step_def)
  obtain ms where ms: "trace s'' = trace s' @ map ReadTable ms"
    using assms(2) by (auto simp: lazy_step_def)
  have "trace s'' = trace s @ map ReadTable (ns @ ms)"
    using ns ms by simp
  then have "\<exists>ks. trace s'' = trace s @ map ReadTable ks" by blast
  moreover have "same_config s s''"
    using assms same_config_trans by (auto simp: lazy_step_def)
  moreover have "tables s \<subseteq>\<^sub>m tables s''"
    using assms map_le_trans by (auto simp: lazy_step_def)
  ultimately show ?thesis
    using assms by (simp add: lazy_step_def)
qed

lemma lazy_step_inv: "lazy_step fs s s' \<Longrightarrow> store_inv fs s'"
  by (simp add: lazy_step_def)

lemma lazy_step_config: "lazy_step fs s s' \<Longrightarrow> same_config s s'"
  by (simp add: lazy_step_def)

lemma get_step:
  assumes "store_inv fs s" "get fs s n token = (r, s')"
  shows "r = lookup fs s n token" and "lazy_step fs s s'"
  using get_correct [OF assms] by (simp_all add: lazy_step_def)

lemma getattr_table_step:
  assumes "store_inv fs s" "n \<in> set table_names" "getattr_table fs s n = (r, s')"
  shows "r = table_file fs s n" and "lazy_step fs s s'"
  using getattr_table_inv [OF assms] by (simp_all add: lazy_step_def)

lemma same_config_lookup_attributes:
  "same_config s s' \<Longrightarrow> lookup_attributes fs s' ats = lookup_attributes fs s ats"
  by (induction ats) (auto simp: same_config_lookup split: sum.splits)

lemma same_config_surface_ops:
  assumes "same_config s s'"
  shows "surface_ops lib fs s' ann = surface_ops lib fs s ann"
proof -
  have L: "lookup fs s' = lookup fs s" using assms by (rule same_config_lookup)
  have C: "color_map s' = color_map s" using assms by (simp add: same_config_def)
  show ?thesis unfolding surface_ops_def L C by (rule refl)
qed

lemma same_config_object_ops:
  assumes "same_config s s'"
  shows "object_ops lib fs s' w ann = object_ops lib fs s w ann"
proof -
  have L: "lookup fs s' = lookup fs s" using assms by (rule same_config_lookup)
  have C: "color_map s' = color_map s" using assms by (simp add: same_config_def)
  have A: "lookup_attributes fs s' = lookup_attributes fs s"
    using same_config_lookup_attributes [OF assms] by (simp add: fun_eq_iff)
  show ?thesis unfolding object_ops_def L C A by (rule refl)
qed

lemma same_config_collect_surface:
  assumes "same_config s s'"
  shows "collect_ops (surface_ops lib fs s') anns = collect_ops (surface_ops lib fs s) anns"
proof -
  have "surface_ops lib fs s' = surface_ops lib fs s"
    by (rule ext) (rule same_config_surface_ops [OF assms])
  then show ?thesis by simp
qed

lemma same_config_collect_object:
  assumes "same_config s s'"
  shows "collect_ops (object_ops lib fs s' w) anns = collect_ops (object_ops lib fs s w) anns"
proof -
  have "object_ops lib fs s' w = object_ops lib fs s w"
    by (rule ext) (rule same_config_object_ops [OF assms])
  then show ?thesis by simp
qed

lemma get_attributes_refines:
  assumes "store_inv fs s" "get_attributes fs s ats = (r, s')"
  shows "r = lookup_attributes fs s ats \<and> lazy_step fs s s'"
  using assms
proof (induction ats arbitrary: s r s')
  case Nil
  then show ?case by (simp add: lazy_step_refl)
next
  case (Cons at rest)
  obtain r1 s1 where g: "get fs s ''attribute'' at = (r1, s1)" by (cases "get fs s ''attribute'' at")
  note G = get_step [OF Cons.prems(1) g]
  show ?case
  proof (cases r1)
    case (Inl e)
    have "lookup fs s ''attribute'' at = Inl e" using G(1) Inl by simp
    with Cons.prems(2) g G(2) Inl show ?thesis by simp
  next
    case (Inr attribute)
    obtain r2 s2 where h: "get_attributes fs s1 rest = (r2, s2)"
      by (cases "get_attributes fs s1 rest")
    from Cons.IH [OF lazy_step_inv [OF G(2)] h]
    have r2: "r2 = lookup_attributes fs s1 rest" and st: "lazy_step fs s1 s2" by simp_all
    have r2': "r2 = lookup_attributes fs s rest"
      using r2 same_config_lookup_attributes [OF lazy_step_config [OF G(2)]] by simp
    have "lazy_step fs s s2" using G(2) st by (rule lazy_step_trans)
    moreover have "s' = s2" "r = (case r2 of Inl e \<Rightarrow> Inl e | Inr attributes \<Rightarrow> Inr (attribute # attributes))"
      using Cons.prems(2) g Inr h by (auto split: sum.splits)
    moreover have "lookup fs s ''attribute'' at = Inr attribute" using G(1) Inr by simp
    ultimately show ?thesis
      using r2' by (auto split: sum.splits)
  qed
qed

lemma draw_surface_ann_refines:
  assumes "store_inv fs s" "draw_surface_ann lib fs s im ann = (r, s')"
  shows "r = drawn lib im (surface_ops lib fs s ann) \<and> lazy_step fs s s'"
proof (cases "row_category_token ann")
  case (Inl e)
  with assms show ?thesis
    by (simp add: draw_surface_ann_def surface_ops_def drawn_def lazy_step_refl)
next
  case (Inr category_token)
  obtain r1 s1 where g: "get fs s ''category'' category_token = (r1, s1)"
    by (cases "get fs s ''category'' category_token")
  note G = get_step [OF assms(1) g]
  have cm: "color_map s1 = color_map s"
    using lazy_step_config [OF G(2)] by (simp add: same_config_def)
  have "s' = s1"
    using assms(2) Inr g
    by (auto simp: draw_surface_ann_def split: sum.splits option.splits)
  moreover have "r = drawn lib im (surface_ops lib fs s ann)"
    using assms(2) Inr g G(1) cm
    by (auto simp: draw_surface_ann_def surface_ops_def drawn_def split: sum.splits option.splits)
  ultimately show ?thesis using G(2) by simp
qed

lemma drawn_collect_Cons:
  "drawn lib im (collect_ops f (ann # rest)) =
   (case drawn lib im (f ann) of Inl e \<Rightarrow> Inl e | Inr im' \<Rightarrow> drawn lib im' (collect_ops f rest))"
  by (auto simp: drawn_def split: sum.splits)

lemma draw_surface_anns_refines:
  assumes "store_inv fs s" "draw_surface_anns lib fs s im anns = (r, s')"
  shows "r = drawn lib im (collect_ops (surface_ops lib fs s) anns) \<and> lazy_step fs s s'"
  using assms
proof (induction anns arbitrary: s im r s')
  case Nil
  then show ?case by (simp add: drawn_def lazy_step_refl)
next
  case (Cons ann rest)
  obtain r1 s1 where b: "draw_surface_ann lib fs s im ann = (r1, s1)"
    by (cases "draw_surface_ann lib fs s im ann")
  from draw_surface_ann_refines [OF Cons.prems(1) b]
  have r1: "r1 = drawn lib im (surface_ops lib fs s ann)" and st: "lazy_step fs s s1" by simp_all
  show ?case
  proof (cases r1)
    case (Inl e)
    have d: "drawn lib im (surface_ops lib fs s ann) = Inl e" using r1 Inl by simp
    have "r = Inl e" "s' = s1" using Cons.prems(2) b Inl by simp_all
    moreover have "drawn lib im (collect_ops (surface_ops lib fs s) (ann # rest)) = Inl e"
      unfolding drawn_collect_Cons d by simp
    ultimately show ?thesis using st by simp
  next
    case (Inr im1)
    have d: "drawn lib im (surface_ops lib fs s ann) = Inr im1" using r1 Inr by simp
    from Inr have rest: "draw_surface_anns lib fs s1 im1 rest = (r, s')"
      using Cons.prems(2) b by simp
    from Cons.IH [OF lazy_step_inv [OF st] rest]
    have "r = drawn lib im1 (collect_ops (surface_ops lib fs s1) rest)" and st': "lazy_step fs s1 s'"
      by simp_all
    then have "r = drawn lib im1 (collect_ops (surface_ops lib fs s) rest)"
      by (simp only: same_config_collect_surface [OF lazy_step_config [OF st], of lib fs rest])
    moreover have "drawn lib im (collect_ops (surface_ops lib fs s) (ann # rest)) =
        drawn lib im1 (collect_ops (surface_ops lib fs s) rest)"
      unfolding drawn_collect_Cons d by simp
    ultimately show ?thesis
      using lazy_step_trans [OF st st'] by simp
  qed
qed

lemma draw_object_ann_refines:
  assumes "store_inv fs s" "draw_object_ann lib fs s w im ann = (r, s')"
  shows "r = drawn lib im (object_ops lib fs s w ann) \<and> lazy_step fs s s'"
proof (cases "row_category_token ann")
  case (Inl e)
  with assms show ?thesis
    by (simp add: draw_object_ann_def object_ops_def drawn_def lazy_step_refl)
next
  case ct: (Inr category_token)
  obtain r1 s1 where g: "get fs s ''category'' category_token = (r1, s1)"
    by (cases "get fs s ''category'' category_token")
  note G = get_step [OF assms(1) g]
  have cm: "color_map s1 = color_map s"
    using lazy_step_config [OF G(2)] by (simp add: same_config_def)
  show ?thesis
  proof (cases "\<exists>category category_name color bbox attr_tokens.
      r1 = Inr category \<and> row_name category = Inr category_name \<and>
      color_map s category_name = Some color \<and> row_bbox ann = Inr bbox \<and>
      row_attribute_tokens ann = Inr attr_tokens")
    case False
    then have "s' = s1"
      using assms(2) ct g cm
      by (auto simp: draw_object_ann_def split: sum.splits option.splits)
    moreover have "r = drawn lib im (object_ops lib fs s w ann)"
      using False assms(2) ct g G(1) cm
      by (auto simp: draw_object_ann_def object_ops_def drawn_def split: sum.splits option.splits)
    ultimately show ?thesis using G(2) by simp
  next
    case True
    then obtain category category_name color bbox attr_tokens where
      ok: "r1 = Inr category" "row_name category = Inr category_name"
        "color_map s category_name = Some color" "row_bbox ann = Inr bbox"
        "row_attribute_tokens ann = Inr attr_tokens" by blast
    obtain r2 s2 where h: "get_attributes fs s1 attr_tokens = (r2, s2)"
      by (cases "get_attributes fs s1 attr_tokens")
    from get_attributes_refines [OF lazy_step_inv [OF G(2)] h]
    have "r2 = lookup_attributes fs s1 attr_tokens" and st: "lazy_step fs s1 s2" by simp_all
    then have r2: "r2 = lookup_attributes fs s attr_tokens"
      using same_config_lookup_attributes [OF lazy_step_config [OF G(2)]] by simp
    have "s' = s2"
      using assms(2) ct g cm ok h
      by (auto simp: draw_object_ann_def Let_def split: sum.splits option.splits)
    moreover have "r = drawn lib im (object_ops lib fs s w ann)"
      using assms(2) ct g G(1) cm ok h r2
      by (auto simp: draw_object_ann_def object_ops_def drawn_def Let_def
          split: sum.splits option.splits)
    ultimately show ?thesis using lazy_step_trans [OF G(2) st] by simp
  qed
qed

lemma draw_object_anns_refines:
  assumes "store_inv fs s" "draw_object_anns lib fs s w im anns = (r, s')"
  shows "r = drawn lib im (collect_ops (object_ops lib fs s w) anns) \<and> lazy_step fs s s'"
  using assms
proof (induction anns arbitrary: s im r s')
  case Nil
  then show ?case by (simp add: drawn_def lazy_step_refl)
next
  case (Cons ann rest)
  obtain r1 s1 where b: "draw_object_ann lib fs s w im ann = (r1, s1)"
    by (cases "draw_object_ann lib fs s w im ann")
  from draw_object_ann_refines [OF Cons.prems(1) b]
  have r1: "r1 = drawn lib im (object_ops lib fs s w ann)" and st: "lazy_step fs s s1" by simp_all
  show ?case
  proof (cases r1)
    case (Inl e)
    have d: "drawn lib im (object_ops lib fs s w ann) = Inl e" using r1 Inl by simp
    have "r = Inl e" "s' = s1" using Cons.prems(2) b Inl by simp_all
    moreover have "drawn lib im (collect_ops (object_ops lib fs s w) (ann # rest)) = Inl e"
      unfolding drawn_collect_Cons d by simp
    ultimately show ?thesis using st by simp
  next
    case (Inr im1)
    have d: "drawn lib im (object_ops lib fs s w ann) = Inr im1" using r1 Inr by simp
    from Inr have rest: "draw_object_anns lib fs s1 w im1 rest = (r, s')"
      using Cons.prems(2) b by simp
    from Cons.IH [OF lazy_step_inv [OF st] rest]
    have "r = drawn lib im1 (collect_ops (object_ops lib fs s1 w) rest)" and st': "lazy_step fs s1 s'"
      by simp_all
    then have "r = drawn lib im1 (collect_ops (object_ops lib fs s w) rest)"
      by (simp only: same_config_collect_object [OF lazy_step_config [OF st], of lib fs w rest])
    moreover have "drawn lib im (collect_ops (object_ops lib fs s w) (ann # rest)) =
        drawn lib im1 (collect_ops (object_ops lib fs s w) rest)"
      unfolding drawn_collect_Cons d by simp
    ultimately show ?thesis
      using lazy_step_trans [OF st st'] by simp
  qed
qed

subsection \<open>Validation and the two layers\<close>

lemma store_inv_trace:
  assumes "reads_of evs = []"
  shows "store_inv fs (s\<lparr>trace := trace s @ evs\<rparr>) = store_inv fs s"
proof -
  have p: "table_path (s\<lparr>trace := trace s @ evs\<rparr>) = table_path s"
    by (simp add: table_path_def table_root_def fun_eq_iff)
  show ?thesis
    unfolding store_inv_def p by (simp add: reads_of_append assms)
qed

lemma validate_inputs_eq:
  assumes "get fs s ''sample_data'' token = (r1, s1)" "lookup fs s ''sample_data'' token = r1"
  shows "validate_inputs fs s token wa wattr = (checked_sample_data fs s token wa wattr, s1)"
  unfolding validate_inputs_def checked_sample_data_def assms
  by (simp split: sum.split)

lemma validate_inputs_refines:
  assumes "store_inv fs s" "validate_inputs fs s token wa wattr = (r, s')"
  shows "r = checked_sample_data fs s token wa wattr" and "lazy_step fs s s'"
proof -
  obtain r1 s1 where g: "get fs s ''sample_data'' token = (r1, s1)"
    by (cases "get fs s ''sample_data'' token")
  note G = get_step [OF assms(1) g]
  have L: "lookup fs s ''sample_data'' token = r1" using G(1) by simp
  from validate_inputs_eq [OF g L, of wa wattr] assms(2)
  have "r = checked_sample_data fs s token wa wattr" "s' = s1" by simp_all
  then show "r = checked_sample_data fs s token wa wattr" and "lazy_step fs s s'"
    using G(2) by simp_all
qed

lemma draw_annotations_refines:
  assumes "store_inv fs s"
    and "draw_annotations lib fs s token wattr object_tokens surface_tokens im = (r, s')"
  shows "r = layers lib im (surface_layer lib fs s token surface_tokens)
               (object_layer lib fs s token wattr object_tokens) \<and> lazy_step fs s s'"
proof -
  have sn: "''surface_ann'' \<in> set table_names" and on: "''object_ann'' \<in> set table_names"
    by (simp_all add: table_names_def)
  obtain r1 s1 where a: "getattr_table fs s ''surface_ann'' = (r1, s1)"
    by (cases "getattr_table fs s ''surface_ann''")
  note A = getattr_table_step [OF assms(1) sn a]
  have T1: "table_file fs s ''surface_ann'' = r1" using A(1) by simp
  note run = assms(2) [unfolded draw_annotations_def a]
  show ?thesis
  proof (cases r1)
    case (Inl e)
    then have "r = Inl e" "s' = s1" using run by simp_all
    moreover have "surface_layer lib fs s token surface_tokens = Inl e"
      unfolding surface_layer_def T1 Inl by simp
    ultimately show ?thesis using A(2) by (simp add: layers_def)
  next
    case r1: (Inr surface_ann)
    show ?thesis
    proof (cases "anns_of_sample_data surface_ann token")
      case (Inl e)
      then have "r = Inl e" "s' = s1" using run r1 by simp_all
      moreover have "surface_layer lib fs s token surface_tokens = Inl e"
        unfolding surface_layer_def T1 r1 using Inl by simp
      ultimately show ?thesis using A(2) by (simp add: layers_def)
    next
      case sel: (Inr surface_anns)
      obtain r2 s2 where b:
        "draw_surface_anns lib fs s1 im (allow_list surface_tokens surface_anns) = (r2, s2)"
        by (cases "draw_surface_anns lib fs s1 im (allow_list surface_tokens surface_anns)")
      from draw_surface_anns_refines [OF lazy_step_inv [OF A(2)] b]
      have "r2 = drawn lib im (collect_ops (surface_ops lib fs s1)
                   (allow_list surface_tokens surface_anns))"
        and st2: "lazy_step fs s1 s2" by simp_all
      then have "r2 = drawn lib im (collect_ops (surface_ops lib fs s)
                   (allow_list surface_tokens surface_anns))"
        by (simp only: same_config_collect_surface [OF lazy_step_config [OF A(2)], of lib fs
              "allow_list surface_tokens surface_anns"])
      then have r2: "drawn lib im (surface_layer lib fs s token surface_tokens) = r2"
        unfolding surface_layer_def T1 r1 using sel by simp
      have st02: "lazy_step fs s s2" using A(2) st2 by (rule lazy_step_trans)
      note run2 = run [unfolded r1, simplified, unfolded sel, simplified, unfolded b]
      show ?thesis
      proof (cases r2)
        case (Inl e)
        then have "r = Inl e" "s' = s2" using run2 by simp_all
        moreover have "surface_layer lib fs s token surface_tokens = Inl e"
          using r2 Inl by (cases "surface_layer lib fs s token surface_tokens") (simp_all add: drawn_def)
        ultimately show ?thesis using st02 by (simp add: layers_def)
      next
        case r2i: (Inr im1)
        obtain surface_draws where sd:
          "surface_layer lib fs s token surface_tokens = Inr surface_draws"
          "im1 = fold (draw lib) surface_draws im"
          using r2 r2i by (cases "surface_layer lib fs s token surface_tokens") (simp_all add: drawn_def)
        obtain r3 s3 where c: "getattr_table fs s2 ''object_ann'' = (r3, s3)"
          by (cases "getattr_table fs s2 ''object_ann''")
        note C = getattr_table_step [OF lazy_step_inv [OF st02] on c]
        have T3: "table_file fs s ''object_ann'' = r3"
          using C(1) same_config_table_file [OF lazy_step_config [OF st02]] by simp
        have st03: "lazy_step fs s s3" using st02 C(2) by (rule lazy_step_trans)
        note run3 = run2 [unfolded r2i, simplified, unfolded c]
        show ?thesis
        proof (cases r3)
          case (Inl e)
          then have "r = Inl e" "s' = s3" using run3 by simp_all
          moreover have "object_layer lib fs s token wattr object_tokens = Inl e"
            unfolding object_layer_def T3 Inl by simp
          ultimately show ?thesis using st03 sd by (simp add: layers_def)
        next
          case r3: (Inr object_ann)
          show ?thesis
          proof (cases "anns_of_sample_data object_ann token")
            case (Inl e)
            then have "r = Inl e" "s' = s3" using run3 r3 by simp_all
            moreover have "object_layer lib fs s token wattr object_tokens = Inl e"
              unfolding object_layer_def T3 r3 using Inl by simp
            ultimately show ?thesis using st03 sd by (simp add: layers_def)
          next
            case osel: (Inr object_anns)
            have d: "draw_object_anns lib fs s3 wattr im1 (allow_list object_tokens object_anns) = (r, s')"
              using run3 r3 osel by simp
            from draw_object_anns_refines [OF lazy_step_inv [OF st03] d]
            have "r = drawn lib im1 (collect_ops (object_ops lib fs s3 wattr)
                     (allow_list object_tokens object_anns))"
              and st4: "lazy_step fs s3 s'" by simp_all
            then have "r = drawn lib im1 (collect_ops (object_ops lib fs s wattr)
                     (allow_list object_tokens object_anns))"
              by (simp only: same_config_collect_object [OF lazy_step_config [OF st03], of lib fs wattr
                    "allow_list object_tokens object_anns"])
            then have "r = drawn lib im1 (object_layer lib fs s token wattr object_tokens)"
              unfolding object_layer_def T3 r3 using osel by simp
            then show ?thesis
              using sd lazy_step_trans [OF st03 st4]
              by (cases "object_layer lib fs s token wattr object_tokens")
                 (simp_all add: drawn_def layers_def)
          qed
        qed
      qed
    qed
  qed
qed

subsection \<open>The whole render, loading and the key frame mapping\<close>

lemma render_image_refines:
  assumes "store_inv fs s"
    and "render_image lib fs s token wa wattr object_tokens surface_tokens = (r, s')"
  shows "r = rendered lib fs s token wa wattr object_tokens surface_tokens"
    and "store_inv fs s'" and "same_config s s'"
proof -
  obtain r1 s1 where v: "validate_inputs fs s token wa wattr = (r1, s1)"
    by (cases "validate_inputs fs s token wa wattr")
  note V = validate_inputs_refines [OF assms(1) v]
  have C: "checked_sample_data fs s token wa wattr = r1" using V(1) by simp
  have d1: "dataroot s1 = dataroot s"
    using lazy_step_config [OF V(2)] by (simp add: same_config_def)
  note run = assms(2) [unfolded render_image_def v]
  have all: "r = rendered lib fs s token wa wattr object_tokens surface_tokens \<and>
      store_inv fs s' \<and> same_config s s'"
  proof (cases r1)
    case (Inl e)
    then have "r = Inl e" "s' = s1" using run by simp_all
    moreover have "rendered lib fs s token wa wattr object_tokens surface_tokens = Inl e"
      unfolding rendered_def C Inl by simp
    ultimately show ?thesis using V(2) by (simp add: lazy_step_def)
  next
    case r1: (Inr sample_data)
    show ?thesis
    proof (cases "row_filename sample_data")
      case (Inl e)
      then have "r = Inl e" "s' = s1" using run r1 by simp_all
      moreover have "rendered lib fs s token wa wattr object_tokens surface_tokens = Inl e"
        unfolding rendered_def C r1 using Inl by simp
      ultimately show ?thesis using V(2) by (simp add: lazy_step_def)
    next
      case fn: (Inr filename)
      let ?p = "osp_join (dataroot s) filename"
      show ?thesis
      proof (cases "image_open lib ?p")
        case None
        then have "r = Inl (OSError ?p)" "s' = s1" using run r1 fn d1 by (simp_all add: Let_def)
        moreover have "rendered lib fs s token wa wattr object_tokens surface_tokens = Inl (OSError ?p)"
          unfolding rendered_def C r1 using fn None by simp
        ultimately show ?thesis using V(2) by (simp add: lazy_step_def)
      next
        case (Some im)
        let ?s2 = "s1\<lparr>trace := trace s1 @ [OpenImage ?p]\<rparr>"
        have inv2: "store_inv fs ?s2"
          using lazy_step_inv [OF V(2)] by (simp add: store_inv_trace)
        have c2: "same_config s ?s2"
          using lazy_step_config [OF V(2)] by (simp add: same_config_def)
        show ?thesis
        proof (cases wa)
          case False
          then have "r = Inr im" "s' = ?s2" using run r1 fn d1 Some by (simp_all add: Let_def)
          moreover have "rendered lib fs s token wa wattr object_tokens surface_tokens = Inr im"
            unfolding rendered_def C r1 using fn Some False by simp
          ultimately show ?thesis using inv2 c2 by simp
        next
          case True
          obtain r3 s3 where d:
            "draw_annotations lib fs ?s2 token wattr object_tokens surface_tokens im = (r3, s3)"
            by (cases "draw_annotations lib fs ?s2 token wattr object_tokens surface_tokens im")
          from draw_annotations_refines [OF inv2 d]
          have "r3 = layers lib im (surface_layer lib fs ?s2 token surface_tokens)
                       (object_layer lib fs ?s2 token wattr object_tokens)"
            and st3: "lazy_step fs ?s2 s3" by simp_all
          moreover have "surface_layer lib fs ?s2 token surface_tokens =
              surface_layer lib fs s token surface_tokens"
            unfolding surface_layer_def same_config_table_file [OF c2]
              same_config_collect_surface [OF c2] by (rule refl)
          moreover have "object_layer lib fs ?s2 token wattr object_tokens =
              object_layer lib fs s token wattr object_tokens"
            unfolding object_layer_def same_config_table_file [OF c2]
              same_config_collect_object [OF c2] by (rule refl)
          ultimately have r3: "r3 = layers lib im (surface_layer lib fs s token surface_tokens)
                       (object_layer lib fs s token wattr object_tokens)" by simp
          have R: "rendered lib fs s token wa wattr object_tokens surface_tokens = r3"
            unfolding rendered_def C r1 r3 using fn Some True by simp
          have c3: "same_config s s3"
            using c2 lazy_step_config [OF st3] by (rule same_config_trans)
          have run3: "(case r3 of Inl e \<Rightarrow> (Inl e, s3)
                      | Inr im' \<Rightarrow> (Inr im', s3\<lparr>trace := trace s3 @ [Plot token]\<rparr>)) = (r, s')"
            using run r1 fn d1 Some True d by (simp add: Let_def)
          show ?thesis
          proof (cases r3)
            case (Inl e)
            then have "r = r3" "s' = s3" using run3 by simp_all
            then show ?thesis using R c3 lazy_step_inv [OF st3] by simp
          next
            case (Inr im')
            then have "r = r3" "s' = s3\<lparr>trace := trace s3 @ [Plot token]\<rparr>" using run3 by simp_all
            moreover have "store_inv fs (s3\<lparr>trace := trace s3 @ [Plot token]\<rparr>)"
              using lazy_step_inv [OF st3] by (simp add: store_inv_trace)
            moreover have "same_config s (s3\<lparr>trace := trace s3 @ [Plot token]\<rparr>)"
              using c3 by (simp add: same_config_def)
            ultimately show ?thesis using R by simp
          qed
        qed
      qed
    qed
  qed
  then show "r = rendered lib fs s token wa wattr object_tokens surface_tokens"
    and "store_inv fs s'" and "same_config s s'" by simp_all
qed

lemma load_table_inv:
  assumes "store_inv fs s" "n \<in> set table_names"
  shows "store_inv fs (snd (load_table fs s n))"
  using assms store_inv_add_table [of fs s n]
  by (auto simp: load_table_eq table_names_not_attrs split: option.splits)

lemma sample_to_key_frame_inv:
  assumes "store_inv fs s"
  shows "store_inv fs (snd (sample_to_key_frame fs s sample_token modality))"
proof (cases "sample_to_key_frame_map s")
  case (Some mapping)
  then show ?thesis
    using assms by (simp add: sample_to_key_frame_def split: option.splits)
next
  case None
  have sn: "''sample_data'' \<in> set table_names" by (simp add: table_names_def)
  obtain r1 s1 where a: "getattr_table fs s ''sample_data'' = (r1, s1)"
    by (cases "getattr_table fs s ''sample_data''")
  note A = getattr_table_inv [OF assms sn a]
  show ?thesis
  proof (cases r1)
    case (Inl e)
    then show ?thesis
      using None a A(1) by (simp add: sample_to_key_frame_def)
  next
    case (Inr table)
    show ?thesis
    proof (cases "build_mapping initial_mapping table")
      case (Inl e)
      then show ?thesis
        using None a Inr A(1) by (simp add: sample_to_key_frame_def)
    next
      case m: (Inr mapping)
      have p: "table_path (s1\<lparr>sample_to_key_frame_map := Some mapping\<rparr>) = table_path s1"
        by (simp add: table_path_def table_root_def fun_eq_iff)
      have "store_inv fs (s1\<lparr>sample_to_key_frame_map := Some mapping\<rparr>)"
        using A(1) A(6) [OF Inr] m unfolding store_inv_def p by simp
      then show ?thesis
        using None a Inr m by (simp add: sample_to_key_frame_def split: option.splits)
    qed
  qed
qed

subsection \<open>Construction and the reachable states\<close>

lemma reads_of_map_ReadTable: "reads_of (map ReadTable ns) = ns"
  by (induction ns) auto

lemma dunder_load_table_Some:
  "files fs (table_path s n) = Some table \<Longrightarrow>
   dunder_load_table fs s n = (Inr table, s\<lparr>trace := trace s @ [ReadTable n]\<rparr>)"
  by (simp add: dunder_load_table_def osp_exists_def)

lemma dunder_load_table_None:
  "files fs (table_path s n) = None \<Longrightarrow> \<exists>e. dunder_load_table fs s n = (Inl e, s)"
  by (simp add: dunder_load_table_def)

lemma load_tables_ok:
  assumes "\<forall>n\<in>set ns. files fs (table_path s n) \<noteq> None"
  shows "load_tables fs s ns =
     (Inr (), s\<lparr>trace := trace s @ map ReadTable ns,
                tables := (\<lambda>n. if n \<in> set ns then files fs (table_path s n) else tables s n)\<rparr>)"
  using assms
proof (induction ns arbitrary: s)
  case Nil
  then show ?case by simp
next
  case (Cons n rest)
  then obtain table where t: "files fs (table_path s n) = Some table" by auto
  let ?s1 = "s\<lparr>trace := trace s @ [ReadTable n], tables := (tables s)(n \<mapsto> table)\<rparr>"
  have p: "table_path ?s1 = table_path s"
    by (simp add: table_path_def table_root_def fun_eq_iff)
  have "\<forall>m\<in>set rest. files fs (table_path ?s1 m) \<noteq> None"
    using Cons.prems unfolding p by simp
  from Cons.IH [OF this]
  have "load_tables fs ?s1 rest =
     (Inr (), ?s1\<lparr>trace := trace ?s1 @ map ReadTable rest,
                tables := (\<lambda>m. if m \<in> set rest then files fs (table_path s m) else tables ?s1 m)\<rparr>)"
    unfolding p .
  moreover have "(\<lambda>m. if m \<in> set rest then files fs (table_path s m) else tables ?s1 m) =
      (\<lambda>m. if m \<in> set (n # rest) then files fs (table_path s m) else tables s m)"
    using t by (auto simp: fun_eq_iff)
  ultimately show ?case
    using t by (simp add: dunder_load_table_Some)
qed

lemma load_tables_success:
  "load_tables fs s ns = (Inr u, s') \<Longrightarrow> \<forall>n\<in>set ns. files fs (table_path s n) \<noteq> None"
proof (induction ns arbitrary: s)
  case Nil
  then show ?case by simp
next
  case (Cons n rest)
  show ?case
  proof (cases "files fs (table_path s n)")
    case None
    then obtain e where "dunder_load_table fs s n = (Inl e, s)"
      using dunder_load_table_None by blast
    with Cons.prems show ?thesis by simp
  next
    case (Some table)
    let ?s1 = "s\<lparr>trace := trace s @ [ReadTable n], tables := (tables s)(n \<mapsto> table)\<rparr>"
    have p: "table_path ?s1 = table_path s"
      by (simp add: table_path_def table_root_def fun_eq_iff)
    have "load_tables fs ?s1 rest = (Inr u, s')"
      using Cons.prems Some by (simp add: dunder_load_table_Some)
    from Cons.IH [OF this] Some show ?thesis unfolding p by simp
  qed
qed



lemma init_eq:
  "init fs colormap v d lz vb =
     (if \<not> osp_exists fs (osp_join d v)
      then Inl (AssertionError (''Database version not found: '' @ osp_join d v))
      else (case (if \<not> lz then load_tables fs (blank v d lz vb) table_names
                  else (Inr (), blank v d lz vb)) of
              (Inl e, _) \<Rightarrow> Inl e
            | (Inr _, self2) \<Rightarrow>
                Inr (self2\<lparr>color_map := colormap, sample_to_key_frame_map := None\<rparr>)))"
  by (simp add: init_def blank_def table_root_def Let_def)

lemma store_inv_blank: "store_inv fs (blank v d lz vb)"
  by (simp add: store_inv_def blank_def)

lemma store_inv_loaded:
  assumes "\<forall>n\<in>set table_names. files fs (table_path (blank v d lz vb) n) \<noteq> None"
  shows "store_inv fs ((blank v d lz vb)\<lparr>trace := trace (blank v d lz vb) @ map ReadTable table_names,
     tables := (\<lambda>n. if n \<in> set table_names then files fs (table_path (blank v d lz vb) n)
                     else tables (blank v d lz vb) n)\<rparr>)"
    (is "store_inv fs ?s")
proof -
  have p: "table_path ?s = table_path (blank v d lz vb)"
    by (simp add: table_path_def table_root_def fun_eq_iff)
  have tr: "trace ?s = map ReadTable table_names" by (simp add: blank_def)
  have t2i: "token2ind ?s = (\<lambda>table. if table \<in> set table_names then Some None else None)"
    by (simp add: blank_def)
  have m: "sample_to_key_frame_map ?s = None" by (simp add: blank_def)
  have tb: "tables ?s = (\<lambda>n. if n \<in> set table_names then files fs (table_path (blank v d lz vb) n) else None)"
    by (simp add: blank_def fun_eq_iff)
  show ?thesis
    unfolding store_inv_def p tr t2i m tb reads_of_map_ReadTable
    using assms distinct_table_names by (auto split: if_splits)
qed

lemma store_inv_finish:
  "store_inv fs s \<Longrightarrow> sample_to_key_frame_map s = None \<Longrightarrow>
   store_inv fs (s\<lparr>color_map := colormap, sample_to_key_frame_map := None\<rparr>)"
proof -
  have p: "table_path (s\<lparr>color_map := colormap, sample_to_key_frame_map := None\<rparr>) = table_path s"
    by (simp add: table_path_def table_root_def fun_eq_iff)
  show "store_inv fs s \<Longrightarrow> sample_to_key_frame_map s = None \<Longrightarrow>
   store_inv fs (s\<lparr>color_map := colormap, sample_to_key_frame_map := None\<rparr>)"
    unfolding store_inv_def p by simp
qed

lemma init_inv:
  assumes "init fs colormap v d lz vb = Inr s"
  shows "store_inv fs s"
proof (cases lz)
  case True
  then have "s = (blank v d lz vb)\<lparr>color_map := colormap, sample_to_key_frame_map := None\<rparr>"
    using assms by (simp add: init_eq split: if_splits)
  then show ?thesis
    using store_inv_finish [OF store_inv_blank, of v d lz vb] by (simp add: blank_def)
next
  case False
  obtain r s2 where l: "load_tables fs (blank v d lz vb) table_names = (r, s2)"
    by (cases "load_tables fs (blank v d lz vb) table_names")
  have "r = Inr ()" and s: "s = s2\<lparr>color_map := colormap, sample_to_key_frame_map := None\<rparr>"
    using assms False l by (auto simp: init_eq split: if_splits sum.splits)
  then have all: "\<forall>n\<in>set table_names. files fs (table_path (blank v d lz vb) n) \<noteq> None"
    using load_tables_success [of fs "blank v d lz vb" table_names "()" s2] l by simp
  have s2: "s2 = (blank v d lz vb)\<lparr>trace := trace (blank v d lz vb) @ map ReadTable table_names,
     tables := (\<lambda>n. if n \<in> set table_names then files fs (table_path (blank v d lz vb) n)
                     else tables (blank v d lz vb) n)\<rparr>"
    using load_tables_ok [OF all] l by simp
  have "store_inv fs s2" unfolding s2 using all by (rule store_inv_loaded)
  moreover have "sample_to_key_frame_map s2 = None" unfolding s2 by (simp add: blank_def)
  ultimately show ?thesis unfolding s by (rule store_inv_finish)
qed

lemma reachable_store_inv: "reachable lib fs s \<Longrightarrow> store_inv fs s"
proof (induction rule: reachable.induct)
  case (constructed colormap version' dataroot' lazy' verbose' self)
  then show ?case by (rule init_inv)
next
  case (after_load_table self table_name)
  then show ?case by (simp add: load_table_inv)
next
  case (after_getattr self table_name)
  then show ?case
    using getattr_table_inv(1) [of fs self table_name] by (cases "getattr_table fs self table_name") auto
next
  case (after_getind self table_name token)
  then show ?case by (simp add: getind_inv)
next
  case (after_get self table_name token)
  then show ?case
    using get_correct(2) [of fs self table_name token] by (cases "get fs self table_name token") auto
next
  case (after_sample_to_key_frame self sample_token modality)
  then show ?case by (simp add: sample_to_key_frame_inv)
next
  case (after_render_image self sample_data_token with_annotations with_attributes object_tokens
      surface_tokens)
  then show ?case
    using render_image_refines(2) [of fs self lib sample_data_token with_annotations with_attributes
        object_tokens surface_tokens]
    by (cases "render_image lib fs self sample_data_token with_annotations with_attributes
        object_tokens surface_tokens") auto
qed

subsection \<open>Lookups by token\<close>

lemma get_row_absent:
  "token \<notin> row_token ` set table \<Longrightarrow> get_row table token = Inl (KeyError token)"
  by (auto simp: get_row_def find_None_iff split: option.splits)

lemma get_row_last:
  assumes "j < length table" "row_token (table ! j) = token"
    and "\<forall>k. j < k \<and> k < length table \<longrightarrow> row_token (table ! k) \<noteq> token"
  shows "get_row table token = Inr (table ! j)"
proof -
  from build_token2ind_last [OF assms, of Map.empty 0]
  have "build_token2ind Map.empty (enumerate 0 table) token = Some j" by simp
  then show ?thesis
    using index_get_row [where table = table and token = token] assms(1) by simp
qed

lemma get_row_distinct:
  assumes "distinct (map row_token table)" "r \<in> set table"
  shows "get_row table (row_token r) = Inr r"
proof -
  obtain j where j: "j < length table" "table ! j = r"
    using assms(2) by (auto simp: in_set_conv_nth)
  have "row_token (table ! k) \<noteq> row_token r" if "j < k \<and> k < length table" for k
  proof
    assume "row_token (table ! k) = row_token r"
    then have "map row_token table ! k = map row_token table ! j"
      using that j by simp
    moreover have "k < length (map row_token table)" "j < length (map row_token table)" "k \<noteq> j"
      using that j(1) by simp_all
    ultimately show False
      using assms(1) unfolding distinct_conv_nth by blast
  qed
  then show ?thesis
    using get_row_last [of j table "row_token r"] j by simp
qed

lemma lookup_file:
  "n \<in> set table_names \<Longrightarrow> files fs (table_path s n) = Some table \<Longrightarrow>
   lookup fs s n token = get_row table token"
  using table_file_Inr [of fs s n table] by (simp add: lookup_def)

lemma fst_get:
  "store_inv fs s \<Longrightarrow> fst (get fs s n token) = lookup fs s n token"
  using get_correct(1) [of fs s n token] by (cases "get fs s n token") simp

lemma fst_render_image:
  "store_inv fs s \<Longrightarrow>
   fst (render_image lib fs s token wa wattr object_tokens surface_tokens) =
   rendered lib fs s token wa wattr object_tokens surface_tokens"
  using render_image_refines(1) [of fs s lib token wa wattr object_tokens surface_tokens]
  by (cases "render_image lib fs s token wa wattr object_tokens surface_tokens") simp

lemma getind_file:
  assumes "store_inv fs s" "n \<in> set table_names" "files fs (table_path s n) = Some table"
  shows "fst (getind fs s n token) =
         (case build_token2ind Map.empty (enumerate 0 table) token of
            None \<Rightarrow> Inl (KeyError token) | Some ind \<Rightarrow> Inr ind)"
proof (cases "tables s n")
  case (Some t)
  then have "t = table"
    using store_inv_resident [OF assms(1) Some] assms(3) by simp
  then show ?thesis
    using getind_resident(1) [OF assms(1,2), of table token] Some
    by (cases "getind fs s n token") simp
next
  case None
  have "token2ind s n \<noteq> None"
    using store_inv_keys [OF assms(1), of n] assms(2) by simp
  then obtain v where v: "token2ind s n = Some v" by blast
  have "v = None"
  proof (cases v)
    case (Some d)
    then have "case tables s n of
           Some t \<Rightarrow> d = build_token2ind Map.empty (enumerate 0 t)
         | None \<Rightarrow> d = Map.empty \<and> files fs (table_path s n) = None"
      using assms(1) v unfolding store_inv_def by blast
    with None assms(3) show ?thesis by simp
  qed simp
  have p: "table_path (s\<lparr>token2ind := (token2ind s)(n \<mapsto> Some Map.empty)\<rparr>) = table_path s"
    by (simp add: table_path_def table_root_def fun_eq_iff)
  show ?thesis
    using v \<open>v = None\<close> None assms(2,3)
    by (simp add: getind_def getattr_table_eq p Let_def split: option.splits)
qed

subsection \<open>The small data set\<close>

lemma demo_table_path:
  "n \<in> set table_names \<Longrightarrow> table_path demo_store n = ''/d/v/'' @ n @ ''.json''"
  by (auto simp: table_path_def table_root_def demo_store_def blank_def osp_join_def table_names_def)

lemma demo_init: "init demo_fs demo_colors ''v'' ''/d'' True False = Inr demo_store"
  by (simp add: init_eq demo_store_def osp_exists_def osp_join_def demo_fs_def blank_def)

lemma demo_reachable: "reachable lib demo_fs demo_store"
  using demo_init by (rule reachable.constructed)

lemma demo_files:
  "n \<in> set table_names \<Longrightarrow> files demo_fs (table_path demo_store n) = map_of demo_tables n"
  by (auto simp: demo_table_path demo_fs_def demo_tables_def table_names_def)

lemma demo_sample_data:
  "files demo_fs (table_path demo_store ''sample_data'') =
     Some [SampleData ''sd1'' ''s1'' ''cs1'' True ''jpg'' ''a.jpg'' 0,
           SampleData ''sd2'' ''s1'' ''cs1'' False ''jpg'' ''b.jpg'' 1,
           SampleData ''sd3'' ''s1'' ''cs1'' True ''bin'' ''c.bin'' 0]"
  by (simp add: demo_files table_names_def) (simp add: demo_tables_def)

lemma demo_log:
  "files demo_fs (table_path demo_store ''log'') =
     Some [Log ''l1'' ''f1'' ''boston'', Log ''l1'' ''f2'' ''singapore'']"
  by (simp add: demo_files table_names_def) (simp add: demo_tables_def)

lemma validate_trace:
  assumes "store_inv fs s"
  shows "\<exists>ns s'. validate_inputs fs s token wa wattr =
           (checked_sample_data fs s token wa wattr, s') \<and>
           trace s' = trace s @ map ReadTable ns"
proof -
  obtain r s' where v: "validate_inputs fs s token wa wattr = (r, s')"
    by (cases "validate_inputs fs s token wa wattr")
  from validate_inputs_refines [OF assms v]
  have "r = checked_sample_data fs s token wa wattr" "lazy_step fs s s'" by simp_all
  then show ?thesis using v by (auto simp: lazy_step_def)
qed

section \<open>The claims\<close>

text \<open>
  Claim C4. For a SampleData record of the sample_data table (tokens unique) whose file
  format is not \<^verbatim>\<open>jpg\<close> (a \<^verbatim>\<open>bin\<close> point cloud), or that is a \<^verbatim>\<open>jpg\<close> but not a
  key frame, \<^verbatim>\<open>render_image\<close> with \<^verbatim>\<open>with_annotations = True\<close> raises the
  \<^verbatim>\<open>AssertionError\<close> of the violated precondition. The call has read tables at most:
  no image was opened, so nothing was drawn and nothing was plotted.
\<close>

theorem render_image_precondition:
  assumes "reachable lib fs self"
    and "files fs (table_path self ''sample_data'') = Some table"
    and "distinct (map row_token table)"
    and "sample_data \<in> set table"
    and "row_fileformat sample_data = Inr fileformat"
    and "row_is_key_frame sample_data = Inr is_key_frame"
    and "fileformat \<noteq> ''jpg'' \<or> \<not> is_key_frame"
  shows "\<exists>ns self'.
           render_image lib fs self (row_token sample_data) True with_attributes object_tokens
             surface_tokens =
             (Inl (AssertionError
                (if fileformat \<noteq> ''jpg''
                 then ''Error: Cannot use render_image() on lidar pointclouds!''
                 else ''Error: Cannot render annotations for non keyframes!'')), self') \<and>
           trace self' = trace self @ map ReadTable ns"
proof -
  have inv: "store_inv fs self" using assms(1) by (rule reachable_store_inv)
  have "lookup fs self ''sample_data'' (row_token sample_data) = Inr sample_data"
    using lookup_file [OF _ assms(2)] get_row_distinct [OF assms(3,4)]
    by (simp add: table_names_def)
  then have c: "checked_sample_data fs self (row_token sample_data) True with_attributes =
      Inl (AssertionError
                (if fileformat \<noteq> ''jpg''
                 then ''Error: Cannot use render_image() on lidar pointclouds!''
                 else ''Error: Cannot render annotations for non keyframes!''))"
    using assms(5-7) by (simp add: checked_sample_data_def)
  from validate_trace [OF inv, of "row_token sample_data" True with_attributes]
  obtain ns self' where
    "validate_inputs fs self (row_token sample_data) True with_attributes =
       (checked_sample_data fs self (row_token sample_data) True with_attributes, self')"
    "trace self' = trace self @ map ReadTable ns" by blast
  then show ?thesis
    unfolding c by (auto simp: render_image_def)
qed

theorem render_image_precondition_witness:
  "(\<exists>ns self'.
      render_image demo_lib demo_fs demo_store ''sd3'' True False None None =
        (Inl (AssertionError ''Error: Cannot use render_image() on lidar pointclouds!''), self') \<and>
      trace self' = trace demo_store @ map ReadTable ns) \<and>
   (\<exists>ns self'.
      render_image demo_lib demo_fs demo_store ''sd2'' True False None None =
        (Inl (AssertionError ''Error: Cannot render annotations for non keyframes!''), self') \<and>
      trace self' = trace demo_store @ map ReadTable ns)"
  using render_image_precondition [OF demo_reachable demo_sample_data, of
      "SampleData ''sd3'' ''s1'' ''cs1'' True ''bin'' ''c.bin'' 0" "''bin''" True demo_lib False None None]
    render_image_precondition [OF demo_reachable demo_sample_data, of
      "SampleData ''sd2'' ''s1'' ''cs1'' False ''jpg'' ''b.jpg'' 1" "''jpg''" False demo_lib False None None]
  by simp

text \<open>
  Claim C9. For a camera (\<^verbatim>\<open>jpg\<close>) SampleData record that is not a key frame,
  \<^verbatim>\<open>render_image\<close> with \<^verbatim>\<open>with_attributes = True\<close> raises an \<^verbatim>\<open>AssertionError\<close>
  even when \<^verbatim>\<open>with_annotations = False\<close>.
\<close>

theorem render_image_attributes_need_key_frame:
  assumes "reachable lib fs self"
    and "files fs (table_path self ''sample_data'') = Some table"
    and "distinct (map row_token table)"
    and "sample_data \<in> set table"
    and "row_fileformat sample_data = Inr ''jpg''"
    and "row_is_key_frame sample_data = Inr False"
  shows "fst (render_image lib fs self (row_token sample_data) False True object_tokens
                surface_tokens) =
         Inl (AssertionError ''Error: Cannot render attributes for non keyframes!'')"
proof -
  have inv: "store_inv fs self" using assms(1) by (rule reachable_store_inv)
  have "lookup fs self ''sample_data'' (row_token sample_data) = Inr sample_data"
    using lookup_file [OF _ assms(2)] get_row_distinct [OF assms(3,4)]
    by (simp add: table_names_def)
  then have "checked_sample_data fs self (row_token sample_data) False True =
      Inl (AssertionError ''Error: Cannot render attributes for non keyframes!'')"
    using assms(5,6) by (simp add: checked_sample_data_def)
  then show ?thesis
    unfolding fst_render_image [OF inv] by (simp add: rendered_def)
qed

theorem render_image_attributes_need_key_frame_witness:
  "fst (render_image demo_lib demo_fs demo_store ''sd2'' False True None None) =
     Inl (AssertionError ''Error: Cannot render attributes for non keyframes!'') \<and>
   row_fileformat (SampleData ''sd2'' ''s1'' ''cs1'' False ''jpg'' ''b.jpg'' 1) = Inr ''jpg'' \<and>
   row_is_key_frame (SampleData ''sd2'' ''s1'' ''cs1'' False ''jpg'' ''b.jpg'' 1) = Inr False"
  using render_image_attributes_need_key_frame [OF demo_reachable demo_sample_data, of
      "SampleData ''sd2'' ''s1'' ''cs1'' False ''jpg'' ''b.jpg'' 1" demo_lib None None]
  by simp

text \<open>
  Claim C5. In every state of an object, for a recognised table whose file holds a
  sequence of records with pairwise distinct tokens: \<^verbatim>\<open>get\<close> with the token of a record
  of the table returns that record, and \<^verbatim>\<open>get\<close> with a token that no record carries
  raises \<^verbatim>\<open>KeyError\<close> of that token. For a table name that is not one of the ten,
  \<^verbatim>\<open>get\<close> raises an \<^verbatim>\<open>AssertionError\<close> that names the table and leaves the object
  unchanged; that error is never the \<^verbatim>\<open>KeyError\<close> of a missing token.
\<close>

theorem get_returns_record:
  assumes "reachable lib fs self"
  shows "(table_name \<in> set table_names \<and>
          files fs (table_path self table_name) = Some table \<and>
          distinct (map row_token table) \<longrightarrow>
            (\<forall>r\<in>set table. fst (get fs self table_name (row_token r)) = Inr r) \<and>
            (\<forall>token. token \<notin> row_token ` set table \<longrightarrow>
               fst (get fs self table_name token) = Inl (KeyError token))) \<and>
         (other \<notin> set table_names \<longrightarrow>
            (\<forall>token. get fs self other token =
               (Inl (AssertionError (''Table '' @ other @ '' not found'')), self) \<and>
               (\<forall>key. fst (get fs self other token) \<noteq> Inl (KeyError key))))"
proof -
  have inv: "store_inv fs self" using assms by (rule reachable_store_inv)
  have "fst (get fs self table_name (row_token r)) = Inr r"
    if "table_name \<in> set table_names" "files fs (table_path self table_name) = Some table"
      "distinct (map row_token table)" "r \<in> set table" for r
    using that by (simp add: fst_get [OF inv] lookup_file get_row_distinct)
  moreover have "fst (get fs self table_name token) = Inl (KeyError token)"
    if "table_name \<in> set table_names" "files fs (table_path self table_name) = Some table"
      "token \<notin> row_token ` set table" for token
    using that by (simp add: fst_get [OF inv] lookup_file get_row_absent)
  moreover have "get fs self other token =
      (Inl (AssertionError (''Table '' @ other @ '' not found'')), self)"
    if "other \<notin> set table_names" for token
    using that by (simp add: get_def)
  ultimately show ?thesis by simp
qed

theorem get_returns_record_witness:
  "fst (get demo_fs demo_store ''sample_data'' ''sd2'') =
     Inr (SampleData ''sd2'' ''s1'' ''cs1'' False ''jpg'' ''b.jpg'' 1) \<and>
   fst (get demo_fs demo_store ''sample_data'' ''sd9'') = Inl (KeyError ''sd9'') \<and>
   get demo_fs demo_store ''samples'' ''sd2'' =
     (Inl (AssertionError ''Table samples not found''), demo_store)"
  using get_returns_record [OF demo_reachable, of "''sample_data''"
      "[SampleData ''sd1'' ''s1'' ''cs1'' True ''jpg'' ''a.jpg'' 0,
        SampleData ''sd2'' ''s1'' ''cs1'' False ''jpg'' ''b.jpg'' 1,
        SampleData ''sd3'' ''s1'' ''cs1'' True ''bin'' ''c.bin'' 0]" "''samples''"]
    demo_sample_data
  by (simp add: table_names_def)

text \<open>
  Claim C6. When two records of a table carry the same token, at the positions \<open>i < j\<close>
  with no later record of that token, \<^verbatim>\<open>getind\<close> returns the later position \<open>j\<close>,
  \<^verbatim>\<open>get\<close> returns the later record, neither raises, and the resident table still is
  the whole sequence of the file, both records included.
\<close>

theorem duplicate_token_last_wins:
  assumes "reachable lib fs self"
    and "table_name \<in> set table_names"
    and "files fs (table_path self table_name) = Some table"
    and "i < j" and "j < length table"
    and "row_token (table ! i) = token" and "row_token (table ! j) = token"
    and "\<forall>k. j < k \<and> k < length table \<longrightarrow> row_token (table ! k) \<noteq> token"
  shows "fst (getind fs self table_name token) = Inr j \<and>
         fst (get fs self table_name token) = Inr (table ! j) \<and>
         tables (snd (get fs self table_name token)) table_name = Some table"
proof -
  have inv: "store_inv fs self" using assms(1) by (rule reachable_store_inv)
  have "build_token2ind Map.empty (enumerate 0 table) token = Some j"
    using build_token2ind_last [OF assms(5,7,8), of Map.empty 0] by simp
  then have 1: "fst (getind fs self table_name token) = Inr j"
    by (simp add: getind_file [OF inv assms(2,3)])
  have 2: "fst (get fs self table_name token) = Inr (table ! j)"
    using get_row_last [OF assms(5,7,8)]
    by (simp add: fst_get [OF inv] lookup_file [OF assms(2,3)])
  obtain r s' where g: "get fs self table_name token = (r, s')"
    by (cases "get fs self table_name token")
  obtain r1 s1 where a: "getattr_table fs self table_name = (r1, s1)"
    by (cases "getattr_table fs self table_name")
  note A = getattr_table_inv [OF inv assms(2) a]
  have "r1 = Inr table"
    using A(3) table_file_Inr [of fs self table_name table] assms(3) by simp
  then have "tables s1 table_name = Some table" using A(6) by simp
  moreover obtain r2 s2 where gi: "getind fs s1 table_name token = (r2, s2)"
    by (cases "getind fs s1 table_name token")
  ultimately have "tables s2 table_name = Some table"
    using getind_resident(4) [OF A(1) assms(2) _ gi] by simp
  moreover have "s' = s2"
    using g a \<open>r1 = Inr table\<close> gi assms(2) by (auto simp: get_def split: sum.splits if_splits)
  ultimately have 3: "tables (snd (get fs self table_name token)) table_name = Some table"
    using g by simp
  show ?thesis using 1 2 3 by simp
qed

theorem duplicate_token_last_wins_witness:
  "fst (getind demo_fs demo_store ''log'' ''l1'') = Inr 1 \<and>
   fst (get demo_fs demo_store ''log'' ''l1'') = Inr (Log ''l1'' ''f2'' ''singapore'') \<and>
   tables (snd (get demo_fs demo_store ''log'' ''l1'')) ''log'' =
     Some [Log ''l1'' ''f1'' ''boston'', Log ''l1'' ''f2'' ''singapore'']"
  using duplicate_token_last_wins [OF demo_reachable _ demo_log, of 0 1 "''l1''"]
  by (simp add: table_names_def)

lemma load_table_twice: "load_table fs (snd (load_table fs s n)) n = load_table fs s n"
proof (cases "in_dict s n")
  case True
  then show ?thesis by (simp add: load_table_def)
next
  case False
  show ?thesis
  proof (cases "files fs (table_path s n)")
    case None
    then obtain e where "dunder_load_table fs s n = (Inl e, s)"
      using dunder_load_table_None by blast
    then show ?thesis using False by (simp add: load_table_def)
  next
    case (Some table)
    then show ?thesis
      using False by (simp add: load_table_def dunder_load_table_Some in_dict_def)
  qed
qed

text \<open>
  Claim C8. Calling \<^verbatim>\<open>load_table\<close> a second time for the same name gives the result
  and the state of the first call, trace of reads included; on a resident table the call
  returns at once and changes nothing; and in every state an object reaches, no table
  name occurs twice among the reads.
\<close>

theorem load_table_idempotent:
  "load_table fs (snd (load_table fs self table_name)) table_name = load_table fs self table_name \<and>
   (tables self table_name \<noteq> None \<longrightarrow> load_table fs self table_name = (Inr (), self)) \<and>
   (reachable lib fs self' \<longrightarrow> distinct (reads_of (trace self')))"
  using load_table_twice [of fs self table_name] store_inv_reads [OF reachable_store_inv, of lib fs self']
  by (simp add: load_table_def in_dict_def)

lemma demo_load_log:
  "load_table demo_fs demo_store ''log'' =
     (Inr (), demo_store\<lparr>trace := [ReadTable ''log''],
        tables := [''log'' \<mapsto> [Log ''l1'' ''f1'' ''boston'', Log ''l1'' ''f2'' ''singapore'']]\<rparr>)"
  using demo_log
  by (simp add: load_table_eq instance_attrs_def) (simp add: demo_store_def blank_def)

theorem load_table_idempotent_witness:
  "load_table demo_fs (snd (load_table demo_fs demo_store ''log'')) ''log'' =
     (Inr (), demo_store\<lparr>trace := [ReadTable ''log''],
        tables := [''log'' \<mapsto> [Log ''l1'' ''f1'' ''boston'', Log ''l1'' ''f2'' ''singapore'']]\<rparr>) \<and>
   reachable demo_lib demo_fs (snd (load_table demo_fs demo_store ''log'')) \<and>
   distinct (reads_of (trace (snd (load_table demo_fs demo_store ''log''))))"
proof -
  let ?s = "snd (load_table demo_fs demo_store ''log'')"
  have r: "reachable demo_lib demo_fs ?s"
    using demo_reachable by (rule reachable.after_load_table) (simp add: table_names_def)
  have t: "tables ?s ''log'' \<noteq> None" by (simp add: demo_load_log)
  from load_table_idempotent [of demo_fs demo_store "''log''" demo_lib ?s]
    load_table_idempotent [of demo_fs ?s "''log''" demo_lib ?s] r t
  show ?thesis by (simp add: demo_load_log)
qed









lemma build_mapping_dom: "build_mapping mapping rows = Inr mapping' \<Longrightarrow> dom mapping' = dom mapping"
proof (induction rows arbitrary: mapping)
  case Nil
  then show ?case by simp
next
  case (Cons sample_data rest)
  show ?case
  proof (cases "row_is_key_frame sample_data = Inr True")
    case False
    then have "build_mapping mapping rest = Inr mapping'"
      using Cons.prems by (auto split: sum.splits if_splits)
    then show ?thesis by (rule Cons.IH)
  next
    case True
    then obtain sd_modality sd_sample_token d where
      m: "mapping sd_modality = Some d"
      and b: "build_mapping
           (mapping(sd_modality \<mapsto> d(sd_sample_token \<mapsto> row_token sample_data))) rest =
           Inr mapping'"
      using Cons.prems by (auto simp: Let_def split: sum.splits option.splits)
    have "dom mapping' =
        dom (mapping(sd_modality \<mapsto> d(sd_sample_token \<mapsto> row_token sample_data)))"
      by (rule Cons.IH [OF b])
    also have "\<dots> = insert sd_modality (dom mapping)"
      by (simp only: dom_fun_upd option.distinct if_False)
    also have "\<dots> = dom mapping"
      using m by (simp add: insert_absorb domI)
    finally show ?thesis .
  qed
qed

lemma sample_to_key_frame_camera:
  assumes "store_inv fs s"
  shows "\<exists>e. fst (sample_to_key_frame fs s sample_token ''camera'') = Inl e"
proof -
  have nokey: "mapping ''camera'' = None"
    if "build_mapping initial_mapping table = Inr mapping" for table mapping
  proof -
    have "dom mapping = dom initial_mapping" using that by (rule build_mapping_dom)
    then have "''camera'' \<notin> dom mapping" by (simp add: initial_mapping_def)
    then show ?thesis by blast
  qed
  show ?thesis
  proof (cases "sample_to_key_frame_map s")
    case (Some mapping)
    then have "mapping ''camera'' = None"
      using store_inv_mapping [OF assms Some] nokey by blast
    then show ?thesis using Some by (simp add: sample_to_key_frame_def)
  next
    case None
    obtain r1 s1 where a: "getattr_table fs s ''sample_data'' = (r1, s1)"
      by (cases "getattr_table fs s ''sample_data''")
    show ?thesis
    proof (cases r1)
      case (Inl e)
      then show ?thesis using None a by (simp add: sample_to_key_frame_def)
    next
      case (Inr table)
      show ?thesis
      proof (cases "build_mapping initial_mapping table")
        case (Inl e)
        then show ?thesis using None a Inr by (simp add: sample_to_key_frame_def)
      next
        case m: (Inr mapping)
        then have "mapping ''camera'' = None" by (rule nokey)
        then show ?thesis using None a Inr m by (simp add: sample_to_key_frame_def)
      qed
    qed
  qed
qed

lemma demo_store_fresh:
  "sample_to_key_frame_map demo_store = None" "tables demo_store n = None"
  by (simp_all add: demo_store_def blank_def)

lemma demo_getattr_sample_data:
  "fst (getattr_table demo_fs demo_store ''sample_data'') =
     Inr [SampleData ''sd1'' ''s1'' ''cs1'' True ''jpg'' ''a.jpg'' 0,
          SampleData ''sd2'' ''s1'' ''cs1'' False ''jpg'' ''b.jpg'' 1,
          SampleData ''sd3'' ''s1'' ''cs1'' True ''bin'' ''c.bin'' 0]"
  using demo_sample_data
  by (simp add: getattr_table_eq table_names_def demo_store_fresh)

lemma demo_build_mapping:
  "build_mapping initial_mapping
     [SampleData ''sd1'' ''s1'' ''cs1'' True ''jpg'' ''a.jpg'' 0,
      SampleData ''sd2'' ''s1'' ''cs1'' False ''jpg'' ''b.jpg'' 1,
      SampleData ''sd3'' ''s1'' ''cs1'' True ''bin'' ''c.bin'' 0] = Inl (KeyError ''camera'')"
  by (simp add: initial_mapping_def)

text \<open>
  Claim C1, evaluated on the small data set. The sample \<^verbatim>\<open>s1\<close> has the camera key frame
  \<^verbatim>\<open>sd1\<close> (\<^verbatim>\<open>is_key_frame\<close>, \<^verbatim>\<open>jpg\<close>) and the lidar key frame \<^verbatim>\<open>sd3\<close> (\<^verbatim>\<open>bin\<close>),
  so the claim asks for \<^verbatim>\<open>sd1\<close> and \<^verbatim>\<open>sd3\<close>. The source creates the mapping with the
  keys \<^verbatim>\<open>'image'\<close> and \<^verbatim>\<open>'lidar'\<close> and subscripts it with \<^verbatim>\<open>'camera'\<close>: both
  queries raise \<^verbatim>\<open>KeyError('camera')\<close> while the mapping is built.
\<close>

theorem sample_to_key_frame_camera_key_error:
  "fst (sample_to_key_frame demo_fs demo_store ''s1'' ''camera'') = Inl (KeyError ''camera'') \<and>
   fst (sample_to_key_frame demo_fs demo_store ''s1'' ''lidar'') = Inl (KeyError ''camera'')"
proof -
  obtain s1 where g: "getattr_table demo_fs demo_store ''sample_data'' =
     (Inr [SampleData ''sd1'' ''s1'' ''cs1'' True ''jpg'' ''a.jpg'' 0,
           SampleData ''sd2'' ''s1'' ''cs1'' False ''jpg'' ''b.jpg'' 1,
           SampleData ''sd3'' ''s1'' ''cs1'' True ''bin'' ''c.bin'' 0], s1)"
    using demo_getattr_sample_data by (cases "getattr_table demo_fs demo_store ''sample_data''") simp
  have "sample_to_key_frame demo_fs demo_store ''s1'' modality = (Inl (KeyError ''camera''), s1)"
    for modality
    unfolding sample_to_key_frame_def demo_store_fresh option.case g prod.case sum.case
      demo_build_mapping
    by simp
  then show ?thesis by simp
qed

subsection \<open>The layers of a render\<close>

lemma anns_of_sample_data_filter:
  "anns_of_sample_data table token = Inr anns \<Longrightarrow>
   anns = filter (\<lambda>ann. row_sample_data_token ann = Inr token) table"
proof (induction table arbitrary: anns)
  case Nil
  then show ?case by simp
next
  case (Cons ann rest)
  then obtain t anns' where t: "row_sample_data_token ann = Inr t"
    and r: "anns_of_sample_data rest token = Inr anns'"
    and a: "anns = (if t = token then ann # anns' else anns')"
    by (auto split: sum.splits)
  from Cons.IH [OF r] t a show ?case by simp
qed

lemma allow_list_filter:
  "allow_list tokens (filter P anns) =
   filter (\<lambda>ann. P ann \<and> (case tokens of None \<Rightarrow> True | Some ts \<Rightarrow> row_token ann \<in> set ts)) anns"
  by (cases tokens) (simp_all add: allow_list_def)

lemma collect_ops_Inr:
  "collect_ops f anns = Inr ops \<Longrightarrow> \<exists>opss. map f anns = map Inr opss \<and> ops = concat opss"
proof (induction anns arbitrary: ops)
  case Nil
  then show ?case by simp
next
  case (Cons ann rest)
  then obtain o1 o2 where 1: "f ann = Inr o1" and 2: "collect_ops f rest = Inr o2"
    and 3: "ops = o1 @ o2"
    by (auto split: sum.splits)
  from Cons.IH [OF 2] obtain opss where "map f rest = map Inr opss" "o2 = concat opss" by blast
  then have "map f (ann # rest) = map Inr (o1 # opss) \<and> ops = concat (o1 # opss)"
    using 1 3 by simp
  then show ?case by blast
qed

lemma collect_ops_Inl:
  "ann \<in> set anns \<Longrightarrow> f ann = Inl e \<Longrightarrow> \<exists>e'. collect_ops f anns = Inl e'"
proof (induction anns)
  case Nil
  then show ?case by simp
next
  case (Cons a rest)
  show ?case
  proof (cases "f a")
    case (Inl e1)
    then show ?thesis by simp
  next
    case (Inr o1)
    then have "ann \<in> set rest" using Cons.prems by auto
    from Cons.IH [OF this Cons.prems(2)] obtain e' where "collect_ops f rest = Inl e'" by blast
    then show ?thesis using Inr by simp
  qed
qed

lemma collect_ops_filter:
  assumes "collect_ops f (filter P anns) = Inr ops"
    and "\<forall>ann\<in>set anns. P ann \<and> \<not> Q ann \<longrightarrow> (\<forall>os. f ann = Inr os \<longrightarrow> os = [])"
    and "\<forall>ann. Q ann \<longrightarrow> P ann"
  shows "collect_ops f (filter Q anns) = Inr ops"
  using assms(1,2)
proof (induction anns arbitrary: ops)
  case Nil
  then show ?case by simp
next
  case (Cons ann rest)
  show ?case
  proof (cases "P ann")
    case False
    then have "\<not> Q ann" using assms(3) by blast
    with False Cons show ?thesis by simp
  next
    case True
    then obtain o1 o2 where 1: "f ann = Inr o1" and 2: "collect_ops f (filter P rest) = Inr o2"
      and 3: "ops = o1 @ o2"
      using Cons.prems(1) by (auto split: sum.splits)
    have rest: "collect_ops f (filter Q rest) = Inr o2"
      using 2 Cons.prems(2) by (intro Cons.IH) simp_all
    show ?thesis
    proof (cases "Q ann")
      case True
      then show ?thesis using 1 3 rest by simp
    next
      case False
      then have "o1 = []" using Cons.prems(2) True 1 by simp
      then show ?thesis using False 3 rest by simp
    qed
  qed
qed

lemma surface_ops_no_mask:
  "row_mask ann = Inr None \<Longrightarrow> surface_ops lib fs s ann = Inr os \<Longrightarrow> os = []"
  by (auto simp: surface_ops_def split: sum.splits option.splits)

lemma object_ops_no_mask:
  "row_mask ann = Inr None \<Longrightarrow> object_ops lib fs s w ann = Inr os \<Longrightarrow> os = []"
  by (auto simp: object_ops_def split: sum.splits option.splits)

lemma token_filter_removeAll:
  assumes "distinct (map row_token table)" "ann \<in> set table" "set anns \<subseteq> set table"
    and "\<And>os. f ann = Inr os \<Longrightarrow> os = []"
    and "collect_ops f (allow_list (Some ts) anns) = Inr ops"
  shows "collect_ops f (allow_list (Some (removeAll (row_token ann) ts)) anns) = Inr ops"
proof -
  have same: "a = ann" if "a \<in> set anns" "row_token a = row_token ann" for a
    using that assms(1-3) by (meson distinct_map inj_onD subsetD)
  have "collect_ops f (filter (\<lambda>a. row_token a \<in> set (removeAll (row_token ann) ts)) anns) = Inr ops"
  proof (rule collect_ops_filter [where P = "\<lambda>a. row_token a \<in> set ts"])
    show "collect_ops f (filter (\<lambda>a. row_token a \<in> set ts) anns) = Inr ops"
      using assms(5) by (simp add: allow_list_def)
    show "\<forall>a\<in>set anns. row_token a \<in> set ts \<and> row_token a \<notin> set (removeAll (row_token ann) ts) \<longrightarrow>
        (\<forall>os. f a = Inr os \<longrightarrow> os = [])"
      using same assms(4) by auto
    show "\<forall>a. row_token a \<in> set (removeAll (row_token ann) ts) \<longrightarrow> row_token a \<in> set ts"
      by simp
  qed
  then show ?thesis by (simp add: allow_list_def)
qed

lemma surface_layer_removeAll:
  assumes "files fs (table_path s ''surface_ann'') = Some surface_ann"
    and "distinct (map row_token surface_ann)" "ann \<in> set surface_ann" "row_mask ann = Inr None"
    and "surface_layer lib fs s token (Some ts) = Inr ops"
  shows "surface_layer lib fs s token (Some (removeAll (row_token ann) ts)) = Inr ops"
proof -
  have tf: "table_file fs s ''surface_ann'' = Inr surface_ann"
    using assms(1) by (simp add: table_file_Inr)
  obtain anns where sel: "anns_of_sample_data surface_ann token = Inr anns"
    and c: "collect_ops (surface_ops lib fs s) (allow_list (Some ts) anns) = Inr ops"
    using assms(5) unfolding surface_layer_def tf
    by (cases "anns_of_sample_data surface_ann token") simp_all
  have sub: "set anns \<subseteq> set surface_ann"
    using anns_of_sample_data_filter [OF sel] by auto
  have "collect_ops (surface_ops lib fs s) (allow_list (Some (removeAll (row_token ann) ts)) anns) = Inr ops"
    using assms(2,3) sub _ c
    by (rule token_filter_removeAll) (rule surface_ops_no_mask [OF assms(4)])
  then show ?thesis
    unfolding surface_layer_def tf using sel by simp
qed

lemma object_layer_removeAll:
  assumes "files fs (table_path s ''object_ann'') = Some object_ann"
    and "distinct (map row_token object_ann)" "ann \<in> set object_ann" "row_mask ann = Inr None"
    and "object_layer lib fs s token w (Some ts) = Inr ops"
  shows "object_layer lib fs s token w (Some (removeAll (row_token ann) ts)) = Inr ops"
proof -
  have tf: "table_file fs s ''object_ann'' = Inr object_ann"
    using assms(1) by (simp add: table_file_Inr)
  obtain anns where sel: "anns_of_sample_data object_ann token = Inr anns"
    and c: "collect_ops (object_ops lib fs s w) (allow_list (Some ts) anns) = Inr ops"
    using assms(5) unfolding object_layer_def tf
    by (cases "anns_of_sample_data object_ann token") simp_all
  have sub: "set anns \<subseteq> set object_ann"
    using anns_of_sample_data_filter [OF sel] by auto
  have "collect_ops (object_ops lib fs s w) (allow_list (Some (removeAll (row_token ann) ts)) anns) = Inr ops"
    using assms(2,3) sub _ c
    by (rule token_filter_removeAll) (rule object_ops_no_mask [OF assms(4)])
  then show ?thesis
    unfolding object_layer_def tf using sel by simp
qed

lemma layers_Inr:
  "layers lib im sl ol = Inr result \<longleftrightarrow>
   (\<exists>sd od. sl = Inr sd \<and> ol = Inr od \<and> result = fold (draw lib) od (fold (draw lib) sd im))"
  by (auto simp: layers_def split: sum.splits)

lemma rendered_Inr:
  "rendered lib fs s token wa wattr object_tokens surface_tokens = Inr result \<longleftrightarrow>
   (\<exists>sample_data filename im.
      checked_sample_data fs s token wa wattr = Inr sample_data \<and>
      row_filename sample_data = Inr filename \<and>
      image_open lib (osp_join (dataroot s) filename) = Some im \<and>
      (if wa then layers lib im (surface_layer lib fs s token surface_tokens)
                    (object_layer lib fs s token wattr object_tokens) = Inr result
       else result = im))"
  by (auto simp: rendered_def split: sum.splits option.splits)

lemma checked_sample_data_Inr:
  assumes "checked_sample_data fs s token wa wattr = Inr sample_data"
  shows "lookup fs s ''sample_data'' token = Inr sample_data"
proof (cases "lookup fs s ''sample_data'' token")
  case (Inl e)
  then show ?thesis using assms by (simp add: checked_sample_data_def)
next
  case (Inr sd)
  have "sd = sample_data"
  proof (cases "row_fileformat sd")
    case (Inl e)
    then show ?thesis using assms Inr by (simp add: checked_sample_data_def)
  next
    case ff: (Inr fileformat)
    show ?thesis
    proof (cases "row_is_key_frame sd")
      case (Inl e)
      then show ?thesis using assms Inr ff by (simp add: checked_sample_data_def split: if_splits)
    next
      case kf: (Inr is_key_frame)
      then show ?thesis using assms Inr ff by (simp add: checked_sample_data_def split: if_splits)
    qed
  qed
  then show ?thesis using Inr by simp
qed

lemma surface_ops_shape:
  assumes "surface_ops lib fs s ann = Inr draws"
  shows "(row_mask ann = Inr None \<and> draws = []) \<or>
         (\<exists>m mask_array color. row_mask ann = Inr (Some m) \<and>
            mask_decode lib m = Some mask_array \<and>
            draws = [Bitmap (0, 0) (scale_mask mask_array) (fill_of color)])"
  using assms by (auto simp: surface_ops_def split: sum.splits option.splits)

lemma object_ops_shape:
  assumes "object_ops lib fs s w ann = Inr draws"
  shows "(row_mask ann = Inr None \<and> draws = []) \<or>
         (\<exists>m mask_array color bbox name. row_mask ann = Inr (Some m) \<and>
            mask_decode lib m = Some mask_array \<and> row_bbox ann = Inr bbox \<and>
            draws = [Rectangle bbox color, Text (fst bbox, fst (snd bbox)) name,
                     Bitmap (0, 0) (scale_mask mask_array) (fill_of color)])"
  using assms by (auto simp: object_ops_def split: sum.splits option.splits)

lemma map_Inr_list_all2:
  "map f xs = map Inr ys \<Longrightarrow> list_all2 (\<lambda>x y. f x = Inr y) xs ys"
  by (induction xs arbitrary: ys) auto

lemma surface_layer_selected:
  assumes "surface_layer lib fs s token surface_tokens = Inr ops"
  shows "\<exists>surface_ann opss.
      files fs (table_path s ''surface_ann'') = Some surface_ann \<and>
      map (surface_ops lib fs s)
        (filter (\<lambda>ann. row_sample_data_token ann = Inr token \<and>
                   (case surface_tokens of None \<Rightarrow> True | Some ts \<Rightarrow> row_token ann \<in> set ts))
           surface_ann) = map Inr opss \<and>
      ops = concat opss"
proof -
  obtain surface_ann where tf: "table_file fs s ''surface_ann'' = Inr surface_ann"
    using assms unfolding surface_layer_def
    by (cases "table_file fs s ''surface_ann''") simp_all
  obtain anns where sel: "anns_of_sample_data surface_ann token = Inr anns"
    and c: "collect_ops (surface_ops lib fs s) (allow_list surface_tokens anns) = Inr ops"
    using assms unfolding surface_layer_def tf
    by (cases "anns_of_sample_data surface_ann token") simp_all
  from collect_ops_Inr [OF c] obtain opss where
    "map (surface_ops lib fs s) (allow_list surface_tokens anns) = map Inr opss" "ops = concat opss"
    by blast
  then have "map (surface_ops lib fs s)
        (filter (\<lambda>ann. row_sample_data_token ann = Inr token \<and>
                   (case surface_tokens of None \<Rightarrow> True | Some ts \<Rightarrow> row_token ann \<in> set ts))
           surface_ann) = map Inr opss \<and> ops = concat opss"
    unfolding anns_of_sample_data_filter [OF sel] allow_list_filter by simp
  then show ?thesis
    using tf by (auto simp: table_file_Inr)
qed

lemma object_layer_selected:
  assumes "object_layer lib fs s token w object_tokens = Inr ops"
  shows "\<exists>object_ann opss.
      files fs (table_path s ''object_ann'') = Some object_ann \<and>
      map (object_ops lib fs s w)
        (filter (\<lambda>ann. row_sample_data_token ann = Inr token \<and>
                   (case object_tokens of None \<Rightarrow> True | Some ts \<Rightarrow> row_token ann \<in> set ts))
           object_ann) = map Inr opss \<and>
      ops = concat opss"
proof -
  obtain object_ann where tf: "table_file fs s ''object_ann'' = Inr object_ann"
    using assms unfolding object_layer_def
    by (cases "table_file fs s ''object_ann''") simp_all
  obtain anns where sel: "anns_of_sample_data object_ann token = Inr anns"
    and c: "collect_ops (object_ops lib fs s w) (allow_list object_tokens anns) = Inr ops"
    using assms unfolding object_layer_def tf
    by (cases "anns_of_sample_data object_ann token") simp_all
  from collect_ops_Inr [OF c] obtain opss where
    "map (object_ops lib fs s w) (allow_list object_tokens anns) = map Inr opss" "ops = concat opss"
    by blast
  then have "map (object_ops lib fs s w)
        (filter (\<lambda>ann. row_sample_data_token ann = Inr token \<and>
                   (case object_tokens of None \<Rightarrow> True | Some ts \<Rightarrow> row_token ann \<in> set ts))
           object_ann) = map Inr opss \<and> ops = concat opss"
    unfolding anns_of_sample_data_filter [OF sel] allow_list_filter by simp
  then show ?thesis
    using tf by (auto simp: table_file_Inr)
qed

lemma isl_cases: "(\<And>x. r \<noteq> Inr x) \<Longrightarrow> \<exists>e. r = Inl e"
  by (cases r) auto

lemma unresolved_category:
  assumes "(files fs (table_path s ''category'') = Some category \<and>
            category_token \<notin> row_token ` set category) \<or>
           (\<exists>c name. lookup fs s ''category'' category_token = Inr c \<and> row_name c = Inr name \<and>
              color_map s name = None)"
    and "row_category_token ann = Inr category_token"
  shows "\<exists>e. surface_ops lib fs s ann = Inl e" and "\<exists>e. object_ops lib fs s w ann = Inl e"
proof -
  have "(\<exists>e. lookup fs s ''category'' category_token = Inl e) \<or>
        (\<exists>c name. lookup fs s ''category'' category_token = Inr c \<and> row_name c = Inr name \<and>
              color_map s name = None)"
    using assms(1) lookup_file [of "''category''" fs s category category_token]
      get_row_absent [of category_token category]
    by (auto simp: table_names_def)
  then show "\<exists>e. surface_ops lib fs s ann = Inl e" and "\<exists>e. object_ops lib fs s w ann = Inl e"
    using assms(2) by (auto simp: surface_ops_def object_ops_def)
qed

lemma selected:
  assumes "ann \<in> set table" "row_sample_data_token ann = Inr token"
    and "case tokens of None \<Rightarrow> True | Some ts \<Rightarrow> row_token ann \<in> set ts"
  shows "ann \<in> set (allow_list tokens (filter (\<lambda>a. row_sample_data_token a = Inr token) table))"
  using assms by (auto simp: allow_list_def split: option.splits)

lemma surface_layer_unresolved:
  assumes "files fs (table_path s ''surface_ann'') = Some surface_ann"
    and "ann \<in> set surface_ann" "row_sample_data_token ann = Inr token"
    and "case surface_tokens of None \<Rightarrow> True | Some ts \<Rightarrow> row_token ann \<in> set ts"
    and "surface_ops lib fs s ann = Inl e"
  shows "\<exists>e'. surface_layer lib fs s token surface_tokens = Inl e'"
proof -
  have tf: "table_file fs s ''surface_ann'' = Inr surface_ann"
    using assms(1) by (simp add: table_file_Inr)
  show ?thesis
  proof (cases "anns_of_sample_data surface_ann token")
    case (Inl e1)
    then show ?thesis unfolding surface_layer_def tf by simp
  next
    case (Inr anns)
    have "ann \<in> set (allow_list surface_tokens anns)"
      using selected [OF assms(2-4)] anns_of_sample_data_filter [OF Inr] by simp
    from collect_ops_Inl [where f = "surface_ops lib fs s", OF this assms(5)] show ?thesis
      unfolding surface_layer_def tf using Inr by simp
  qed
qed

lemma object_layer_unresolved:
  assumes "files fs (table_path s ''object_ann'') = Some object_ann"
    and "ann \<in> set object_ann" "row_sample_data_token ann = Inr token"
    and "case object_tokens of None \<Rightarrow> True | Some ts \<Rightarrow> row_token ann \<in> set ts"
    and "object_ops lib fs s w ann = Inl e"
  shows "\<exists>e'. object_layer lib fs s token w object_tokens = Inl e'"
proof -
  have tf: "table_file fs s ''object_ann'' = Inr object_ann"
    using assms(1) by (simp add: table_file_Inr)
  show ?thesis
  proof (cases "anns_of_sample_data object_ann token")
    case (Inl e1)
    then show ?thesis unfolding object_layer_def tf by simp
  next
    case (Inr anns)
    have "ann \<in> set (allow_list object_tokens anns)"
      using selected [OF assms(2-4)] anns_of_sample_data_filter [OF Inr] by simp
    from collect_ops_Inl [where f = "object_ops lib fs s w", OF this assms(5)] show ?thesis
      unfolding object_layer_def tf using Inr by simp
  qed
qed

lemma rendered_layer_error:
  assumes "(\<exists>e. surface_layer lib fs s token surface_tokens = Inl e) \<or>
           (\<exists>e. object_layer lib fs s token wattr object_tokens = Inl e)"
  shows "\<exists>e. rendered lib fs s token True wattr object_tokens surface_tokens = Inl e"
proof (rule isl_cases)
  fix result
  show "rendered lib fs s token True wattr object_tokens surface_tokens \<noteq> Inr result"
  proof
    assume "rendered lib fs s token True wattr object_tokens surface_tokens = Inr result"
    then obtain im where "layers lib im (surface_layer lib fs s token surface_tokens)
        (object_layer lib fs s token wattr object_tokens) = Inr result"
      unfolding rendered_Inr by auto
    then obtain sd od where "surface_layer lib fs s token surface_tokens = Inr sd"
      "object_layer lib fs s token wattr object_tokens = Inr od"
      unfolding layers_Inr by blast
    with assms show False by auto
  qed
qed

subsection \<open>Renders of the small data set\<close>

lemma demo_inv: "store_inv demo_fs demo_store"
  using demo_reachable [of demo_lib] by (rule reachable_store_inv)

lemma demo_table:
  "n \<in> set table_names \<Longrightarrow> table_file demo_fs demo_store n = Inr (the (map_of demo_tables n))"
  unfolding table_file_Inr
  by (simp add: demo_files) (auto simp: table_names_def demo_tables_def)

lemma demo_lookup:
  "n \<in> set table_names \<Longrightarrow>
   lookup demo_fs demo_store n token = get_row (the (map_of demo_tables n)) token"
  by (simp add: lookup_def demo_table)

lemma demo_config:
  "color_map demo_store = demo_colors" "dataroot demo_store = ''/d''"
  by (simp_all add: demo_store_def blank_def)

lemma demo_checked_sd1:
  "checked_sample_data demo_fs demo_store ''sd1'' True False =
     Inr (SampleData ''sd1'' ''s1'' ''cs1'' True ''jpg'' ''a.jpg'' 0)"
  by (simp add: checked_sample_data_def demo_lookup table_names_def)
     (simp add: demo_tables_def get_row_def)

lemma demo_surface_layer_u1:
  "surface_layer demo_lib demo_fs demo_store ''sd1'' (Some [''u1'']) =
     Inr [Bitmap (0, 0) [[128, 0]] (0, 255, 0, 128)]"
  by (simp add: surface_layer_def demo_table table_names_def)
     (simp add: demo_tables_def allow_list_def surface_ops_def demo_lookup table_names_def
        get_row_def demo_config demo_colors_def demo_lib_def scale_mask_def fill_of_def)

lemma demo_surface_layer_u1_u3:
  "surface_layer demo_lib demo_fs demo_store ''sd1'' (Some [''u1'', ''u3'']) =
     Inr [Bitmap (0, 0) [[128, 0]] (0, 255, 0, 128)]"
  by (simp add: surface_layer_def demo_table table_names_def)
     (simp add: demo_tables_def allow_list_def surface_ops_def demo_lookup table_names_def
        get_row_def demo_config demo_colors_def demo_lib_def scale_mask_def fill_of_def)

lemma demo_surface_layer_all:
  "surface_layer demo_lib demo_fs demo_store ''sd1'' None = Inl (KeyError ''c9'')"
  by (simp add: surface_layer_def demo_table table_names_def)
     (simp add: demo_tables_def allow_list_def surface_ops_def demo_lookup table_names_def
        get_row_def demo_config demo_colors_def demo_lib_def scale_mask_def fill_of_def)

lemma demo_object_layer_o1:
  "object_layer demo_lib demo_fs demo_store ''sd1'' False (Some [''o1'']) =
     Inr [Rectangle (0, 0, 10, 10) (255, 0, 0), Text (0, 0) ''person'',
          Bitmap (0, 0) [[128, 0]] (255, 0, 0, 128)]"
  by (simp add: object_layer_def demo_table table_names_def)
     (simp add: demo_tables_def allow_list_def object_ops_def demo_lookup table_names_def
        get_row_def demo_config demo_colors_def demo_lib_def scale_mask_def fill_of_def)

lemma demo_object_layer_o1_o2:
  "object_layer demo_lib demo_fs demo_store ''sd1'' False (Some [''o1'', ''o2'']) =
     Inr [Rectangle (0, 0, 10, 10) (255, 0, 0), Text (0, 0) ''person'',
          Bitmap (0, 0) [[128, 0]] (255, 0, 0, 128)]"
  by (simp add: object_layer_def demo_table table_names_def)
     (simp add: demo_tables_def allow_list_def object_ops_def demo_lookup table_names_def
        get_row_def demo_config demo_colors_def demo_lib_def scale_mask_def fill_of_def)

lemma demo_object_layer_all:
  "object_layer demo_lib demo_fs demo_store ''sd1'' False None = Inl (KeyError ''tree'')"
  by (simp add: object_layer_def demo_table table_names_def)
     (simp add: demo_tables_def allow_list_def object_ops_def demo_lookup table_names_def
        get_row_def demo_config demo_colors_def demo_lib_def scale_mask_def fill_of_def)

lemma demo_rendered:
  "rendered demo_lib demo_fs demo_store ''sd1'' True False object_tokens surface_tokens =
     layers demo_lib []
       (surface_layer demo_lib demo_fs demo_store ''sd1'' surface_tokens)
       (object_layer demo_lib demo_fs demo_store ''sd1'' False object_tokens)"
  unfolding rendered_def demo_checked_sd1
  by (simp add: demo_config osp_join_def) (simp add: demo_lib_def)

lemma demo_render:
  "fst (render_image demo_lib demo_fs demo_store ''sd1'' True False object_tokens surface_tokens) =
     layers demo_lib []
       (surface_layer demo_lib demo_fs demo_store ''sd1'' surface_tokens)
       (object_layer demo_lib demo_fs demo_store ''sd1'' False object_tokens)"
  by (simp add: fst_render_image [OF demo_inv] demo_rendered)

lemma demo_render_o1_u1:
  "fst (render_image demo_lib demo_fs demo_store ''sd1'' True False (Some [''o1'']) (Some [''u1''])) =
     Inr [Bitmap (0, 0) [[128, 0]] (0, 255, 0, 128),
          Rectangle (0, 0, 10, 10) (255, 0, 0), Text (0, 0) ''person'',
          Bitmap (0, 0) [[128, 0]] (255, 0, 0, 128)]"
  unfolding demo_render demo_surface_layer_u1 demo_object_layer_o1
  by (simp add: layers_def demo_lib_def)

lemma demo_render_o1_o2_u1_u3:
  "fst (render_image demo_lib demo_fs demo_store ''sd1'' True False (Some [''o1'', ''o2''])
          (Some [''u1'', ''u3''])) =
     Inr [Bitmap (0, 0) [[128, 0]] (0, 255, 0, 128),
          Rectangle (0, 0, 10, 10) (255, 0, 0), Text (0, 0) ''person'',
          Bitmap (0, 0) [[128, 0]] (255, 0, 0, 128)]"
  unfolding demo_render demo_surface_layer_u1_u3 demo_object_layer_o1_o2
  by (simp add: layers_def demo_lib_def)

lemma demo_surface_layer_u4_u1:
  "surface_layer demo_lib demo_fs demo_store ''sd1'' (Some [''u4'', ''u1'']) =
     Inr [Bitmap (0, 0) [[128, 0]] (0, 255, 0, 128), Bitmap (0, 0) [[128, 0]] (255, 0, 0, 128)]"
  by (simp add: surface_layer_def demo_table table_names_def)
     (simp add: demo_tables_def allow_list_def surface_ops_def demo_lookup table_names_def
        get_row_def demo_config demo_colors_def demo_lib_def scale_mask_def fill_of_def)

lemma demo_object_layer_o4_o1:
  "object_layer demo_lib demo_fs demo_store ''sd1'' False (Some [''o4'', ''o1'']) =
     Inr [Rectangle (0, 0, 10, 10) (255, 0, 0), Text (0, 0) ''person'',
          Bitmap (0, 0) [[128, 0]] (255, 0, 0, 128),
          Rectangle (5, 5, 6, 6) (0, 255, 0), Text (5, 5) ''road'',
          Bitmap (0, 0) [[128, 0]] (0, 255, 0, 128)]"
  by (simp add: object_layer_def demo_table table_names_def)
     (simp add: demo_tables_def allow_list_def object_ops_def demo_lookup table_names_def
        get_row_def demo_config demo_colors_def demo_lib_def scale_mask_def fill_of_def)

lemma demo_render_o4_o1_u4_u1:
  "fst (render_image demo_lib demo_fs demo_store ''sd1'' True False (Some [''o4'', ''o1''])
          (Some [''u4'', ''u1''])) =
     Inr [Bitmap (0, 0) [[128, 0]] (0, 255, 0, 128), Bitmap (0, 0) [[128, 0]] (255, 0, 0, 128),
          Rectangle (0, 0, 10, 10) (255, 0, 0), Text (0, 0) ''person'',
          Bitmap (0, 0) [[128, 0]] (255, 0, 0, 128),
          Rectangle (5, 5, 6, 6) (0, 255, 0), Text (5, 5) ''road'',
          Bitmap (0, 0) [[128, 0]] (0, 255, 0, 128)]"
  unfolding demo_render demo_surface_layer_u4_u1 demo_object_layer_o4_o1
  by (simp add: layers_def demo_lib_def)

lemma demo_surface_layer_u1_u2:
  "surface_layer demo_lib demo_fs demo_store ''sd1'' (Some [''u1'', ''u2'']) = Inl (KeyError ''c9'')"
  by (simp add: surface_layer_def demo_table table_names_def)
     (simp add: demo_tables_def allow_list_def surface_ops_def demo_lookup table_names_def
        get_row_def demo_config demo_colors_def demo_lib_def scale_mask_def fill_of_def)

lemma demo_surface_ann:
  "files demo_fs (table_path demo_store ''surface_ann'') =
     Some [SurfaceAnn ''u1'' ''sd1'' ''c2'' (Some (RLE [10, 10] ''m2'')),
           SurfaceAnn ''u2'' ''sd1'' ''c9'' None,
           SurfaceAnn ''u3'' ''sd1'' ''c2'' None,
          SurfaceAnn ''u4'' ''sd1'' ''c1'' (Some (RLE [10, 10] ''m4''))]"
  by (simp add: demo_files table_names_def) (simp add: demo_tables_def)

lemma demo_object_ann:
  "files demo_fs (table_path demo_store ''object_ann'') =
     Some [ObjectAnn ''o1'' ''sd1'' ''c1'' (0, 0, 10, 10) (Some (RLE [10, 10] ''m1'')) [''a1''],
           ObjectAnn ''o2'' ''sd1'' ''c1'' (1, 1, 2, 2) None [],
           ObjectAnn ''o3'' ''sd1'' ''c3'' (2, 2, 3, 3) None [],
          ObjectAnn ''o4'' ''sd1'' ''c2'' (5, 5, 6, 6) (Some (RLE [10, 10] ''m5'')) []]"
  by (simp add: demo_files table_names_def) (simp add: demo_tables_def)

lemma demo_category:
  "files demo_fs (table_path demo_store ''category'') =
     Some [Category ''c1'' ''person'' ''human'', Category ''c2'' ''road'' ''flat'',
           Category ''c3'' ''tree'' ''plant'']"
  by (simp add: demo_files table_names_def) (simp add: demo_tables_def)

text \<open>
  Claim C2. When \<^verbatim>\<open>render_image\<close> with annotations returns an image, that image is
  the opened image file with two lists of drawing calls applied in order: first the
  calls of the surface annotations, then the calls of the object annotations. The
  annotations of a group are the records of its table, in the order of the table, that
  belong to the sample data and, when an allow-list is given, whose token is in the
  allow-list: the order of the allow-list plays no role. Each of them contributes the
  calls of its loop body (\<open>surface_ops\<close>, \<open>object_ops\<close>), which are no call at all
  when it has no mask, the fill of its mask for a surface annotation, and box, label and
  fill of the mask, in this order, for an object annotation. So whatever an object
  annotation draws is drawn after every surface fill; where the two masks overlap, the
  pixel is the one of drawing the object last.
\<close>

theorem render_image_draw_order:
  assumes "reachable lib fs self"
    and "fst (render_image lib fs self sample_data_token True with_attributes object_tokens
                surface_tokens) = Inr result"
  shows "\<exists>sample_data filename im surface_ann object_ann surface_anns object_anns
           surface_draws object_draws.
      lookup fs self ''sample_data'' sample_data_token = Inr sample_data \<and>
      row_filename sample_data = Inr filename \<and>
      image_open lib (osp_join (dataroot self) filename) = Some im \<and>
      files fs (table_path self ''surface_ann'') = Some surface_ann \<and>
      files fs (table_path self ''object_ann'') = Some object_ann \<and>
      surface_anns =
        filter (\<lambda>ann. row_sample_data_token ann = Inr sample_data_token \<and>
                  (case surface_tokens of None \<Rightarrow> True | Some ts \<Rightarrow> row_token ann \<in> set ts))
          surface_ann \<and>
      object_anns =
        filter (\<lambda>ann. row_sample_data_token ann = Inr sample_data_token \<and>
                  (case object_tokens of None \<Rightarrow> True | Some ts \<Rightarrow> row_token ann \<in> set ts))
          object_ann \<and>
      map (surface_ops lib fs self) surface_anns = map Inr surface_draws \<and>
      map (object_ops lib fs self with_attributes) object_anns = map Inr object_draws \<and>
      list_all2
        (\<lambda>ann draws.
           (row_mask ann = Inr None \<and> draws = []) \<or>
           (\<exists>m mask_array color. row_mask ann = Inr (Some m) \<and>
              mask_decode lib m = Some mask_array \<and>
              draws = [Bitmap (0, 0) (scale_mask mask_array) (fill_of color)]))
        surface_anns surface_draws \<and>
      list_all2
        (\<lambda>ann draws.
           (row_mask ann = Inr None \<and> draws = []) \<or>
           (\<exists>m mask_array color bbox name. row_mask ann = Inr (Some m) \<and>
              mask_decode lib m = Some mask_array \<and> row_bbox ann = Inr bbox \<and>
              draws = [Rectangle bbox color, Text (fst bbox, fst (snd bbox)) name,
                       Bitmap (0, 0) (scale_mask mask_array) (fill_of color)]))
        object_anns object_draws \<and>
      result = fold (draw lib) (concat object_draws) (fold (draw lib) (concat surface_draws) im)"
proof -
  have inv: "store_inv fs self" using assms(1) by (rule reachable_store_inv)
  from assms(2) obtain sample_data filename im where
    c: "checked_sample_data fs self sample_data_token True with_attributes = Inr sample_data"
    and f: "row_filename sample_data = Inr filename"
    and i: "image_open lib (osp_join (dataroot self) filename) = Some im"
    and l: "layers lib im (surface_layer lib fs self sample_data_token surface_tokens)
              (object_layer lib fs self sample_data_token with_attributes object_tokens) = Inr result"
    unfolding fst_render_image [OF inv] rendered_Inr by auto
  from l obtain sd od where
    sl: "surface_layer lib fs self sample_data_token surface_tokens = Inr sd"
    and ol: "object_layer lib fs self sample_data_token with_attributes object_tokens = Inr od"
    and r: "result = fold (draw lib) od (fold (draw lib) sd im)"
    unfolding layers_Inr by blast
  define select where "select tokens table =
      filter (\<lambda>ann. row_sample_data_token ann = Inr sample_data_token \<and>
                (case tokens of None \<Rightarrow> True | Some ts \<Rightarrow> row_token ann \<in> set ts)) table"
    for tokens :: "string list option" and table :: "row list"
  from surface_layer_selected [OF sl] obtain surface_ann surface_draws where
    s: "files fs (table_path self ''surface_ann'') = Some surface_ann"
      "map (surface_ops lib fs self) (select surface_tokens surface_ann) = map Inr surface_draws"
      "sd = concat surface_draws"
    unfolding select_def by blast
  from object_layer_selected [OF ol] obtain object_ann object_draws where
    ob: "files fs (table_path self ''object_ann'') = Some object_ann"
      "map (object_ops lib fs self with_attributes) (select object_tokens object_ann) =
         map Inr object_draws"
      "od = concat object_draws"
    unfolding select_def by blast
  have ss: "list_all2
        (\<lambda>ann draws.
           (row_mask ann = Inr None \<and> draws = []) \<or>
           (\<exists>m mask_array color. row_mask ann = Inr (Some m) \<and>
              mask_decode lib m = Some mask_array \<and>
              draws = [Bitmap (0, 0) (scale_mask mask_array) (fill_of color)]))
        (select surface_tokens surface_ann) surface_draws"
    using map_Inr_list_all2 [OF s(2)]
    by (rule list_all2_mono) (rule surface_ops_shape)
  have os: "list_all2
        (\<lambda>ann draws.
           (row_mask ann = Inr None \<and> draws = []) \<or>
           (\<exists>m mask_array color bbox name. row_mask ann = Inr (Some m) \<and>
              mask_decode lib m = Some mask_array \<and> row_bbox ann = Inr bbox \<and>
              draws = [Rectangle bbox color, Text (fst bbox, fst (snd bbox)) name,
                       Bitmap (0, 0) (scale_mask mask_array) (fill_of color)]))
        (select object_tokens object_ann) object_draws"
    using map_Inr_list_all2 [OF ob(2)]
    by (rule list_all2_mono) (rule object_ops_shape)
  show ?thesis
    apply (rule exI [of _ sample_data], rule exI [of _ filename], rule exI [of _ im])
    apply (rule exI [of _ surface_ann], rule exI [of _ object_ann])
    apply (rule exI [of _ "select surface_tokens surface_ann"])
    apply (rule exI [of _ "select object_tokens object_ann"])
    apply (rule exI [of _ surface_draws], rule exI [of _ object_draws])
    using checked_sample_data_Inr [OF c] f i s ob r ss os
    apply (simp add: select_def)
    done
qed

theorem render_image_draw_order_witness:
  "fst (render_image demo_lib demo_fs demo_store ''sd1'' True False (Some [''o4'', ''o1''])
          (Some [''u4'', ''u1''])) =
     Inr [Bitmap (0, 0) [[128, 0]] (0, 255, 0, 128), Bitmap (0, 0) [[128, 0]] (255, 0, 0, 128),
          Rectangle (0, 0, 10, 10) (255, 0, 0), Text (0, 0) ''person'',
          Bitmap (0, 0) [[128, 0]] (255, 0, 0, 128),
          Rectangle (5, 5, 6, 6) (0, 255, 0), Text (5, 5) ''road'',
          Bitmap (0, 0) [[128, 0]] (0, 255, 0, 128)] \<and>
   (\<exists>sample_data filename im surface_draws object_draws.
      lookup demo_fs demo_store ''sample_data'' ''sd1'' = Inr sample_data \<and>
      row_filename sample_data = Inr filename \<and>
      image_open demo_lib (osp_join (dataroot demo_store) filename) = Some im \<and>
      map (surface_ops demo_lib demo_fs demo_store)
        [SurfaceAnn ''u1'' ''sd1'' ''c2'' (Some (RLE [10, 10] ''m2'')),
         SurfaceAnn ''u4'' ''sd1'' ''c1'' (Some (RLE [10, 10] ''m4''))] = map Inr surface_draws \<and>
      map (object_ops demo_lib demo_fs demo_store False)
        [ObjectAnn ''o1'' ''sd1'' ''c1'' (0, 0, 10, 10) (Some (RLE [10, 10] ''m1'')) [''a1''],
         ObjectAnn ''o4'' ''sd1'' ''c2'' (5, 5, 6, 6) (Some (RLE [10, 10] ''m5'')) []] =
        map Inr object_draws \<and>
      [Bitmap (0, 0) [[128, 0]] (0, 255, 0, 128), Bitmap (0, 0) [[128, 0]] (255, 0, 0, 128),
       Rectangle (0, 0, 10, 10) (255, 0, 0), Text (0, 0) ''person'',
       Bitmap (0, 0) [[128, 0]] (255, 0, 0, 128),
       Rectangle (5, 5, 6, 6) (0, 255, 0), Text (5, 5) ''road'',
       Bitmap (0, 0) [[128, 0]] (0, 255, 0, 128)] =
      fold (draw demo_lib) (concat object_draws) (fold (draw demo_lib) (concat surface_draws) im))"
proof -
  from render_image_draw_order [OF demo_reachable demo_render_o4_o1_u4_u1]
  obtain sample_data filename im surface_ann object_ann surface_anns object_anns
    surface_draws object_draws where
    l: "lookup demo_fs demo_store ''sample_data'' ''sd1'' = Inr sample_data"
      "row_filename sample_data = Inr filename"
      "image_open demo_lib (osp_join (dataroot demo_store) filename) = Some im"
    and t: "files demo_fs (table_path demo_store ''surface_ann'') = Some surface_ann"
      "files demo_fs (table_path demo_store ''object_ann'') = Some object_ann"
    and s: "surface_anns =
        filter (\<lambda>ann. row_sample_data_token ann = Inr ''sd1'' \<and>
                  (case Some [''u4'', ''u1''] of None \<Rightarrow> True | Some ts \<Rightarrow> row_token ann \<in> set ts))
          surface_ann"
      "object_anns =
        filter (\<lambda>ann. row_sample_data_token ann = Inr ''sd1'' \<and>
                  (case Some [''o4'', ''o1''] of None \<Rightarrow> True | Some ts \<Rightarrow> row_token ann \<in> set ts))
          object_ann"
    and d: "map (surface_ops demo_lib demo_fs demo_store) surface_anns = map Inr surface_draws"
      "map (object_ops demo_lib demo_fs demo_store False) object_anns = map Inr object_draws"
    and r: "[Bitmap (0, 0) [[128, 0]] (0, 255, 0, 128), Bitmap (0, 0) [[128, 0]] (255, 0, 0, 128),
       Rectangle (0, 0, 10, 10) (255, 0, 0), Text (0, 0) ''person'',
       Bitmap (0, 0) [[128, 0]] (255, 0, 0, 128),
       Rectangle (5, 5, 6, 6) (0, 255, 0), Text (5, 5) ''road'',
       Bitmap (0, 0) [[128, 0]] (0, 255, 0, 128)] =
      fold (draw demo_lib) (concat object_draws) (fold (draw demo_lib) (concat surface_draws) im)"
    by blast
  have "surface_anns = [SurfaceAnn ''u1'' ''sd1'' ''c2'' (Some (RLE [10, 10] ''m2'')),
         SurfaceAnn ''u4'' ''sd1'' ''c1'' (Some (RLE [10, 10] ''m4''))]"
    using t(1) unfolding s(1) demo_surface_ann by auto
  moreover have "object_anns =
        [ObjectAnn ''o1'' ''sd1'' ''c1'' (0, 0, 10, 10) (Some (RLE [10, 10] ''m1'')) [''a1''],
         ObjectAnn ''o4'' ''sd1'' ''c2'' (5, 5, 6, 6) (Some (RLE [10, 10] ''m5'')) []]"
    using t(2) unfolding s(2) demo_object_ann by auto
  ultimately show ?thesis
    using demo_render_o4_o1_u4_u1 l d r by blast
qed

lemma collect_ops_filter_eq:
  assumes "\<forall>ann\<in>set anns. P ann \<and> \<not> Q ann \<longrightarrow> f ann = Inr []"
    and "\<forall>ann. Q ann \<longrightarrow> P ann"
  shows "collect_ops f (filter Q anns) = collect_ops f (filter P anns)"
  using assms(1)
proof (induction anns)
  case Nil
  then show ?case by simp
next
  case (Cons ann rest)
  then have rest: "collect_ops f (filter Q rest) = collect_ops f (filter P rest)" by simp
  show ?case
  proof (cases "P ann")
    case False
    then have "\<not> Q ann" using assms(2) by blast
    with False rest show ?thesis by simp
  next
    case True
    show ?thesis
    proof (cases "Q ann")
      case True
      with \<open>P ann\<close> rest show ?thesis by (simp split: sum.splits)
    next
      case False
      then have "f ann = Inr []" using Cons.prems True by simp
      with False True rest show ?thesis by (simp split: sum.splits)
    qed
  qed
qed

lemma allow_list_removeAll_eq:
  assumes "distinct (map row_token table)" "ann \<in> set table" "set anns \<subseteq> set table"
    and "f ann = Inr []"
  shows "collect_ops f (allow_list (Some (removeAll (row_token ann) ts)) anns) =
         collect_ops f (allow_list (Some ts) anns)"
proof -
  have same: "a = ann" if "a \<in> set anns" "row_token a = row_token ann" for a
    using that assms(1-3) by (meson distinct_map inj_onD subsetD)
  have "collect_ops f (filter (\<lambda>a. row_token a \<in> set (removeAll (row_token ann) ts)) anns) =
        collect_ops f (filter (\<lambda>a. row_token a \<in> set ts) anns)"
  proof (rule collect_ops_filter_eq)
    show "\<forall>a\<in>set anns. row_token a \<in> set ts \<and> row_token a \<notin> set (removeAll (row_token ann) ts) \<longrightarrow>
        f a = Inr []"
      using same assms(4) by auto
    show "\<forall>a. row_token a \<in> set (removeAll (row_token ann) ts) \<longrightarrow> row_token a \<in> set ts"
      by simp
  qed
  then show ?thesis by (simp add: allow_list_def)
qed

lemma surface_layer_removeAll_eq:
  assumes "files fs (table_path s ''surface_ann'') = Some surface_ann"
    and "distinct (map row_token surface_ann)" "ann \<in> set surface_ann"
    and "surface_ops lib fs s ann = Inr []"
  shows "surface_layer lib fs s token (Some (removeAll (row_token ann) ts)) =
         surface_layer lib fs s token (Some ts)"
proof -
  have tf: "table_file fs s ''surface_ann'' = Inr surface_ann"
    using assms(1) by (simp add: table_file_Inr)
  show ?thesis
  proof (cases "anns_of_sample_data surface_ann token")
    case (Inl e)
    then show ?thesis unfolding surface_layer_def tf by simp
  next
    case (Inr anns)
    have "set anns \<subseteq> set surface_ann"
      using anns_of_sample_data_filter [OF Inr] by auto
    from allow_list_removeAll_eq [where f = "surface_ops lib fs s", OF assms(2,3) this assms(4)]
    show ?thesis
      unfolding surface_layer_def tf using Inr by simp
  qed
qed

lemma object_layer_removeAll_eq:
  assumes "files fs (table_path s ''object_ann'') = Some object_ann"
    and "distinct (map row_token object_ann)" "ann \<in> set object_ann"
    and "object_ops lib fs s w ann = Inr []"
  shows "object_layer lib fs s token w (Some (removeAll (row_token ann) ts)) =
         object_layer lib fs s token w (Some ts)"
proof -
  have tf: "table_file fs s ''object_ann'' = Inr object_ann"
    using assms(1) by (simp add: table_file_Inr)
  show ?thesis
  proof (cases "anns_of_sample_data object_ann token")
    case (Inl e)
    then show ?thesis unfolding object_layer_def tf by simp
  next
    case (Inr anns)
    have "set anns \<subseteq> set object_ann"
      using anns_of_sample_data_filter [OF Inr] by auto
    from allow_list_removeAll_eq [where f = "object_ops lib fs s w", OF assms(2,3) this assms(4)]
    show ?thesis
      unfolding object_layer_def tf using Inr by simp
  qed
qed

lemma rendered_without_surface:
  assumes "files fs (table_path s ''surface_ann'') = Some surface_ann"
    and "distinct (map row_token surface_ann)" "ann \<in> set surface_ann" "row_mask ann = Inr None"
    and "(\<exists>result. rendered lib fs s token wa wattr object_tokens (Some ts) = Inr result) \<or>
         (\<exists>os. surface_ops lib fs s ann = Inr os)"
  shows "rendered lib fs s token wa wattr object_tokens (Some (removeAll (row_token ann) ts)) =
         rendered lib fs s token wa wattr object_tokens (Some ts)"
  using assms(5)
proof
  assume "\<exists>os. surface_ops lib fs s ann = Inr os"
  then have "surface_ops lib fs s ann = Inr []"
    using surface_ops_no_mask [OF assms(4)] by blast
  then have "surface_layer lib fs s token (Some (removeAll (row_token ann) ts)) =
      surface_layer lib fs s token (Some ts)"
    by (rule surface_layer_removeAll_eq [OF assms(1-3)])
  then show ?thesis unfolding rendered_def by (simp only:)
next
  assume "\<exists>result. rendered lib fs s token wa wattr object_tokens (Some ts) = Inr result"
  then obtain result where r: "rendered lib fs s token wa wattr object_tokens (Some ts) = Inr result"
    by blast
  then obtain sample_data filename im where
    c: "checked_sample_data fs s token wa wattr = Inr sample_data"
      "row_filename sample_data = Inr filename"
      "image_open lib (osp_join (dataroot s) filename) = Some im"
    and l: "if wa then layers lib im (surface_layer lib fs s token (Some ts))
              (object_layer lib fs s token wattr object_tokens) = Inr result
            else result = im"
    unfolding rendered_Inr by blast
  have "if wa then layers lib im
              (surface_layer lib fs s token (Some (removeAll (row_token ann) ts)))
              (object_layer lib fs s token wattr object_tokens) = Inr result
            else result = im"
  proof (cases wa)
    case True
    with l obtain sd od where
      sl: "surface_layer lib fs s token (Some ts) = Inr sd"
      and rest: "object_layer lib fs s token wattr object_tokens = Inr od"
        "result = fold (draw lib) od (fold (draw lib) sd im)"
      unfolding layers_Inr by auto
    from surface_layer_removeAll [OF assms(1-4) sl] rest True show ?thesis
      unfolding layers_Inr by simp
  next
    case False
    with l show ?thesis by simp
  qed
  with c have "rendered lib fs s token wa wattr object_tokens
      (Some (removeAll (row_token ann) ts)) = Inr result"
    unfolding rendered_Inr by blast
  with r show ?thesis by simp
qed

lemma rendered_without_object:
  assumes "files fs (table_path s ''object_ann'') = Some object_ann"
    and "distinct (map row_token object_ann)" "ann \<in> set object_ann" "row_mask ann = Inr None"
    and "(\<exists>result. rendered lib fs s token wa wattr (Some ts) surface_tokens = Inr result) \<or>
         (\<exists>os. object_ops lib fs s wattr ann = Inr os)"
  shows "rendered lib fs s token wa wattr (Some (removeAll (row_token ann) ts)) surface_tokens =
         rendered lib fs s token wa wattr (Some ts) surface_tokens"
  using assms(5)
proof
  assume "\<exists>os. object_ops lib fs s wattr ann = Inr os"
  then have "object_ops lib fs s wattr ann = Inr []"
    using object_ops_no_mask [OF assms(4)] by blast
  then have "object_layer lib fs s token wattr (Some (removeAll (row_token ann) ts)) =
      object_layer lib fs s token wattr (Some ts)"
    by (rule object_layer_removeAll_eq [OF assms(1-3)])
  then show ?thesis unfolding rendered_def by (simp only:)
next
  assume "\<exists>result. rendered lib fs s token wa wattr (Some ts) surface_tokens = Inr result"
  then obtain result where r: "rendered lib fs s token wa wattr (Some ts) surface_tokens = Inr result"
    by blast
  then obtain sample_data filename im where
    c: "checked_sample_data fs s token wa wattr = Inr sample_data"
      "row_filename sample_data = Inr filename"
      "image_open lib (osp_join (dataroot s) filename) = Some im"
    and l: "if wa then layers lib im (surface_layer lib fs s token surface_tokens)
              (object_layer lib fs s token wattr (Some ts)) = Inr result
            else result = im"
    unfolding rendered_Inr by blast
  have "if wa then layers lib im (surface_layer lib fs s token surface_tokens)
              (object_layer lib fs s token wattr (Some (removeAll (row_token ann) ts))) = Inr result
            else result = im"
  proof (cases wa)
    case True
    with l obtain sd od where
      ol: "object_layer lib fs s token wattr (Some ts) = Inr od"
      and rest: "surface_layer lib fs s token surface_tokens = Inr sd"
        "result = fold (draw lib) od (fold (draw lib) sd im)"
      unfolding layers_Inr by auto
    from object_layer_removeAll [OF assms(1-4) ol] rest True show ?thesis
      unfolding layers_Inr by simp
  next
    case False
    with l show ?thesis by simp
  qed
  with c have "rendered lib fs s token wa wattr (Some (removeAll (row_token ann) ts))
      surface_tokens = Inr result"
    unfolding rendered_Inr by blast
  with r show ?thesis by simp
qed

text \<open>
  Claim C3, as stated, does not hold for every annotation without a mask: both loops
  look up the category of the annotation and the colour of its name before they test the
  mask. The surface annotation \<open>u2\<close> of the small data set has no mask and a category
  token that is not in the category table: the render with \<open>u2\<close> in the allow-list
  raises \<^verbatim>\<open>KeyError\<close>, the render without it returns an image.
\<close>

theorem render_image_mask_gating_counterexample:
  "row_mask (SurfaceAnn ''u2'' ''sd1'' ''c9'' None) = Inr None \<and>
   files demo_fs (table_path demo_store ''surface_ann'') =
     Some [SurfaceAnn ''u1'' ''sd1'' ''c2'' (Some (RLE [10, 10] ''m2'')),
           SurfaceAnn ''u2'' ''sd1'' ''c9'' None,
           SurfaceAnn ''u3'' ''sd1'' ''c2'' None,
           SurfaceAnn ''u4'' ''sd1'' ''c1'' (Some (RLE [10, 10] ''m4''))] \<and>
   fst (render_image demo_lib demo_fs demo_store ''sd1'' True False (Some [''o1''])
          (Some [''u1'', ''u2''])) = Inl (KeyError ''c9'') \<and>
   fst (render_image demo_lib demo_fs demo_store ''sd1'' True False (Some [''o1''])
          (Some (removeAll ''u2'' [''u1'', ''u2'']))) =
     Inr [Bitmap (0, 0) [[128, 0]] (0, 255, 0, 128),
          Rectangle (0, 0, 10, 10) (255, 0, 0), Text (0, 0) ''person'',
          Bitmap (0, 0) [[128, 0]] (255, 0, 0, 128)]"
proof -
  have "fst (render_image demo_lib demo_fs demo_store ''sd1'' True False (Some [''o1''])
          (Some [''u1'', ''u2''])) = Inl (KeyError ''c9'')"
    unfolding demo_render demo_surface_layer_u1_u2 by (simp add: layers_def)
  then show ?thesis
    using demo_render_o1_u1 demo_surface_ann by simp
qed

text \<open>
  Claim C3, amended. A surface annotation of the table (tokens unique) that has no mask
  draws nothing: removing its token from the allow-list of surface tokens does not change
  what \<^verbatim>\<open>render_image\<close> returns, whenever the render with the token returns an image,
  or the loop body of the annotation raises nothing (its category token, the name of the
  category and the colour of the name resolve, which is what \<open>surface_ops\<close> returning
  a list says). The same holds for an object annotation and the allow-list of object
  tokens. In particular a render that returns an image returns the same image, pixel for
  pixel, when the annotation is taken off the allow-list.
\<close>

theorem render_image_mask_gating:
  assumes "reachable lib fs self"
  shows "(files fs (table_path self ''surface_ann'') = Some surface_ann \<and>
          distinct (map row_token surface_ann) \<and> ann \<in> set surface_ann \<and>
          row_mask ann = Inr None \<and>
          ((\<exists>result. fst (render_image lib fs self token wa wattr object_tokens (Some ts)) =
              Inr result) \<or>
           (\<exists>os. surface_ops lib fs self ann = Inr os)) \<longrightarrow>
            fst (render_image lib fs self token wa wattr object_tokens
                   (Some (removeAll (row_token ann) ts))) =
            fst (render_image lib fs self token wa wattr object_tokens (Some ts))) \<and>
         (files fs (table_path self ''object_ann'') = Some object_ann \<and>
          distinct (map row_token object_ann) \<and> ann' \<in> set object_ann \<and>
          row_mask ann' = Inr None \<and>
          ((\<exists>result. fst (render_image lib fs self token' wa' wattr' (Some ts') surface_tokens) =
              Inr result) \<or>
           (\<exists>os. object_ops lib fs self wattr' ann' = Inr os)) \<longrightarrow>
            fst (render_image lib fs self token' wa' wattr' (Some (removeAll (row_token ann') ts'))
                   surface_tokens) =
            fst (render_image lib fs self token' wa' wattr' (Some ts') surface_tokens))"
proof -
  have inv: "store_inv fs self" using assms by (rule reachable_store_inv)
  show ?thesis
    unfolding fst_render_image [OF inv]
    by (intro conjI impI; elim conjE)
       (erule (4) rendered_without_surface, erule (4) rendered_without_object)
qed

theorem render_image_mask_gating_witness:
  "fst (render_image demo_lib demo_fs demo_store ''sd1'' True False (Some [''o1'', ''o2''])
          (Some [''u1'', ''u3''])) =
     Inr [Bitmap (0, 0) [[128, 0]] (0, 255, 0, 128),
          Rectangle (0, 0, 10, 10) (255, 0, 0), Text (0, 0) ''person'',
          Bitmap (0, 0) [[128, 0]] (255, 0, 0, 128)] \<and>
   fst (render_image demo_lib demo_fs demo_store ''sd1'' True False (Some [''o1'', ''o2''])
          (Some [''u1''])) =
     Inr [Bitmap (0, 0) [[128, 0]] (0, 255, 0, 128),
          Rectangle (0, 0, 10, 10) (255, 0, 0), Text (0, 0) ''person'',
          Bitmap (0, 0) [[128, 0]] (255, 0, 0, 128)] \<and>
   fst (render_image demo_lib demo_fs demo_store ''sd1'' True False (Some [''o1''])
          (Some [''u1'', ''u3''])) =
     Inr [Bitmap (0, 0) [[128, 0]] (0, 255, 0, 128),
          Rectangle (0, 0, 10, 10) (255, 0, 0), Text (0, 0) ''person'',
          Bitmap (0, 0) [[128, 0]] (255, 0, 0, 128)]"
  using render_image_mask_gating [OF demo_reachable, of
      "[SurfaceAnn ''u1'' ''sd1'' ''c2'' (Some (RLE [10, 10] ''m2'')),
        SurfaceAnn ''u2'' ''sd1'' ''c9'' None, SurfaceAnn ''u3'' ''sd1'' ''c2'' None,
          SurfaceAnn ''u4'' ''sd1'' ''c1'' (Some (RLE [10, 10] ''m4''))]"
      "SurfaceAnn ''u3'' ''sd1'' ''c2'' None" demo_lib "''sd1''" True False "Some [''o1'', ''o2'']"
      "[''u1'', ''u3'']"
      "[ObjectAnn ''o1'' ''sd1'' ''c1'' (0, 0, 10, 10) (Some (RLE [10, 10] ''m1'')) [''a1''],
        ObjectAnn ''o2'' ''sd1'' ''c1'' (1, 1, 2, 2) None [],
        ObjectAnn ''o3'' ''sd1'' ''c3'' (2, 2, 3, 3) None [],
          ObjectAnn ''o4'' ''sd1'' ''c2'' (5, 5, 6, 6) (Some (RLE [10, 10] ''m5'')) []]"
      "ObjectAnn ''o2'' ''sd1'' ''c1'' (1, 1, 2, 2) None []" "''sd1''" True False "[''o1'', ''o2'']"
      "Some [''u1'', ''u3'']"]
    demo_surface_ann demo_object_ann demo_render_o1_o2_u1_u3
  by simp

text \<open>
  Claim C10. A surface annotation of the rendered sample data that passes the allow-list
  and has no mask still makes \<^verbatim>\<open>render_image\<close> raise when its category token is not a
  token of the category table, or when the name of its category is not a key of the
  colour map: the lookups come before the test of the mask. The same holds for an object
  annotation.
\<close>

theorem render_image_resolves_before_mask_check:
  assumes "reachable lib fs self"
  shows "(files fs (table_path self ''surface_ann'') = Some surface_ann \<and>
          ann \<in> set surface_ann \<and> row_sample_data_token ann = Inr token \<and>
          (case surface_tokens of None \<Rightarrow> True | Some ts \<Rightarrow> row_token ann \<in> set ts) \<and>
          row_mask ann = Inr None \<and> row_category_token ann = Inr category_token \<and>
          ((files fs (table_path self ''category'') = Some category \<and>
            category_token \<notin> row_token ` set category) \<or>
           (\<exists>c name. lookup fs self ''category'' category_token = Inr c \<and>
              row_name c = Inr name \<and> color_map self name = None)) \<longrightarrow>
            (\<exists>e. fst (render_image lib fs self token True wattr object_tokens surface_tokens) =
                   Inl e)) \<and>
         (files fs (table_path self ''object_ann'') = Some object_ann \<and>
          ann' \<in> set object_ann \<and> row_sample_data_token ann' = Inr token' \<and>
          (case object_tokens' of None \<Rightarrow> True | Some ts \<Rightarrow> row_token ann' \<in> set ts) \<and>
          row_mask ann' = Inr None \<and> row_category_token ann' = Inr category_token' \<and>
          ((files fs (table_path self ''category'') = Some category' \<and>
            category_token' \<notin> row_token ` set category') \<or>
           (\<exists>c name. lookup fs self ''category'' category_token' = Inr c \<and>
              row_name c = Inr name \<and> color_map self name = None)) \<longrightarrow>
            (\<exists>e. fst (render_image lib fs self token' True wattr' object_tokens' surface_tokens') =
                   Inl e))"
proof -
  have inv: "store_inv fs self" using assms by (rule reachable_store_inv)
  have 1: "\<exists>e. fst (render_image lib fs self token True wattr object_tokens surface_tokens) = Inl e"
    if f: "files fs (table_path self ''surface_ann'') = Some surface_ann"
      and a: "ann \<in> set surface_ann" "row_sample_data_token ann = Inr token"
        "case surface_tokens of None \<Rightarrow> True | Some ts \<Rightarrow> row_token ann \<in> set ts"
      and c: "row_category_token ann = Inr category_token"
      and u: "(files fs (table_path self ''category'') = Some category \<and>
            category_token \<notin> row_token ` set category) \<or>
           (\<exists>c name. lookup fs self ''category'' category_token = Inr c \<and>
              row_name c = Inr name \<and> color_map self name = None)"
  proof -
    obtain e where "surface_ops lib fs self ann = Inl e"
      using unresolved_category(1) [OF u c] by blast
    from surface_layer_unresolved [OF f a this]
    have "\<exists>e. rendered lib fs self token True wattr object_tokens surface_tokens = Inl e"
      by (intro rendered_layer_error disjI1)
    then show ?thesis unfolding fst_render_image [OF inv] .
  qed
  have 2: "\<exists>e. fst (render_image lib fs self token' True wattr' object_tokens' surface_tokens') = Inl e"
    if f: "files fs (table_path self ''object_ann'') = Some object_ann"
      and a: "ann' \<in> set object_ann" "row_sample_data_token ann' = Inr token'"
        "case object_tokens' of None \<Rightarrow> True | Some ts \<Rightarrow> row_token ann' \<in> set ts"
      and c: "row_category_token ann' = Inr category_token'"
      and u: "(files fs (table_path self ''category'') = Some category' \<and>
            category_token' \<notin> row_token ` set category') \<or>
           (\<exists>c name. lookup fs self ''category'' category_token' = Inr c \<and>
              row_name c = Inr name \<and> color_map self name = None)"
  proof -
    obtain e where "object_ops lib fs self wattr' ann' = Inl e"
      using unresolved_category(2) [OF u c] by blast
    from object_layer_unresolved [OF f a this]
    have "\<exists>e. rendered lib fs self token' True wattr' object_tokens' surface_tokens' = Inl e"
      by (intro rendered_layer_error disjI2)
    then show ?thesis unfolding fst_render_image [OF inv] .
  qed
  show ?thesis
    by (intro conjI impI; elim conjE) (erule (5) 1, erule (5) 2)
qed

theorem render_image_resolves_before_mask_check_witness:
  "fst (render_image demo_lib demo_fs demo_store ''sd1'' True False None None) =
     Inl (KeyError ''c9'') \<and>
   fst (render_image demo_lib demo_fs demo_store ''sd1'' True False None (Some [''u1''])) =
     Inl (KeyError ''tree'') \<and>
   fst (render_image demo_lib demo_fs demo_store ''sd1'' True False (Some [''o1'']) (Some [''u1''])) =
     Inr [Bitmap (0, 0) [[128, 0]] (0, 255, 0, 128),
          Rectangle (0, 0, 10, 10) (255, 0, 0), Text (0, 0) ''person'',
          Bitmap (0, 0) [[128, 0]] (255, 0, 0, 128)]"
proof -
  have c3: "lookup demo_fs demo_store ''category'' ''c3'' = Inr (Category ''c3'' ''tree'' ''plant'')"
    by (simp add: demo_lookup table_names_def) (simp add: demo_tables_def get_row_def)
  have nocolor: "color_map demo_store ''tree'' = None"
    by (simp add: demo_config demo_colors_def)
  from render_image_resolves_before_mask_check [OF demo_reachable, of
      "[SurfaceAnn ''u1'' ''sd1'' ''c2'' (Some (RLE [10, 10] ''m2'')),
        SurfaceAnn ''u2'' ''sd1'' ''c9'' None, SurfaceAnn ''u3'' ''sd1'' ''c2'' None,
          SurfaceAnn ''u4'' ''sd1'' ''c1'' (Some (RLE [10, 10] ''m4''))]"
      "SurfaceAnn ''u2'' ''sd1'' ''c9'' None" "''sd1''" None "''c9''"
      "[Category ''c1'' ''person'' ''human'', Category ''c2'' ''road'' ''flat'',
        Category ''c3'' ''tree'' ''plant'']" demo_lib False None
      "[ObjectAnn ''o1'' ''sd1'' ''c1'' (0, 0, 10, 10) (Some (RLE [10, 10] ''m1'')) [''a1''],
        ObjectAnn ''o2'' ''sd1'' ''c1'' (1, 1, 2, 2) None [],
        ObjectAnn ''o3'' ''sd1'' ''c3'' (2, 2, 3, 3) None [],
          ObjectAnn ''o4'' ''sd1'' ''c2'' (5, 5, 6, 6) (Some (RLE [10, 10] ''m5'')) []]"
      "ObjectAnn ''o3'' ''sd1'' ''c3'' (2, 2, 3, 3) None []" "''sd1''" None "''c3''"
      "[]" False "Some [''u1'']"]
    demo_surface_ann demo_object_ann demo_category c3 nocolor
  have "(\<exists>e. fst (render_image demo_lib demo_fs demo_store ''sd1'' True False None None) = Inl e) \<and>
        (\<exists>e. fst (render_image demo_lib demo_fs demo_store ''sd1'' True False None
                 (Some [''u1''])) = Inl e)"
    by simp
  then obtain e1 e2 where
    "fst (render_image demo_lib demo_fs demo_store ''sd1'' True False None None) = Inl e1"
    "fst (render_image demo_lib demo_fs demo_store ''sd1'' True False None (Some [''u1''])) = Inl e2"
    by blast
  moreover have "e1 = KeyError ''c9''"
    using calculation(1) unfolding demo_render demo_surface_layer_all by (simp add: layers_def)
  moreover have "e2 = KeyError ''tree''"
    using calculation(2) unfolding demo_render demo_surface_layer_u1 demo_object_layer_all
    by (simp add: layers_def)
  ultimately show ?thesis using demo_render_o1_u1 by simp
qed

end
